theory Spec2Isabelle
  imports Complex_Main "HOL-Library.Word" "HOL-Library.AList"
begin

section \<open>JavaScript strings\<close>

text \<open>
  A JavaScript string is a sequence of 16-bit code units; \<open>length\<close> counts code units,
  and a regular expression without the \<open>u\<close> flag matches code unit by code unit.
  Literals of the source that are plain ASCII are written with \<open>ascii\<close>.
\<close>

type_synonym code_unit = "16 word"
type_synonym jsstring = "code_unit list"

definition ascii :: "string \<Rightarrow> jsstring" where
  "ascii s = map (\<lambda>c. word_of_nat (of_char c)) s"

text \<open>
  ECMAScript's WhiteSpace and LineTerminator code points: the characters that
  \<open>String.prototype.trim\<close> strips and that the class \<open>\s\<close> of a regular expression matches.
\<close>

definition is_space :: "code_unit \<Rightarrow> bool" where
  "is_space c \<longleftrightarrow>
     c = 0x09 \<or> c = 0x0A \<or> c = 0x0B \<or> c = 0x0C \<or> c = 0x0D \<or> c = 0x20 \<or>
     c = 0xA0 \<or> c = 0x1680 \<or> (0x2000 \<le> c \<and> c \<le> 0x200A) \<or>
     c = 0x2028 \<or> c = 0x2029 \<or> c = 0x202F \<or> c = 0x205F \<or> c = 0x3000 \<or> c = 0xFEFF"

definition trim :: "jsstring \<Rightarrow> jsstring" where
  "trim s = rev (dropWhile is_space (rev (dropWhile is_space s)))"

section \<open>The two regular expressions of app.js\<close>

text \<open>
  Both regular expressions of the source are sequences of single-character classes, each
  taken once or one or more times (\<open>+\<close>), and both end with \<open>$\<close>. \<open>re_match\<close> is the
  backtracking matcher for such a sequence from the current position to the end of the
  input: a \<open>+\<close> item is greedy (it first tries to take one more character) and gives
  characters back when the rest fails.
\<close>

datatype char_class =
    NotSpaceOrAt          \<comment> \<open>\<open>[^\s@]\<close>\<close>
  | Literal code_unit     \<comment> \<open>an escaped or plain character\<close>

fun class_matches :: "char_class \<Rightarrow> code_unit \<Rightarrow> bool" where
  "class_matches NotSpaceOrAt c = (\<not> is_space c \<and> c \<noteq> 0x40)"
| "class_matches (Literal l) c = (c = l)"

datatype re_item = Once char_class | OneOrMore char_class

fun re_match :: "re_item list \<Rightarrow> jsstring \<Rightarrow> bool" where
  "re_match [] s = (s = [])"
| "re_match (Once k # r) [] = False"
| "re_match (Once k # r) (c # cs) = (class_matches k c \<and> re_match r cs)"
| "re_match (OneOrMore k # r) [] = False"
| "re_match (OneOrMore k # r) (c # cs) =
     (class_matches k c \<and> (re_match (OneOrMore k # r) cs \<or> re_match r cs))"

text \<open>\<open>/^[^\s@]+@[^\s@]+\.[^\s@]+$/\<close> (line 37); \<open>^\<close> anchors the match at position 0.\<close>

definition email_re :: "re_item list" where
  "email_re =
     [OneOrMore NotSpaceOrAt, Once (Literal 0x40), OneOrMore NotSpaceOrAt,
      Once (Literal 0x2E), OneOrMore NotSpaceOrAt]"

definition re_test :: "re_item list \<Rightarrow> jsstring \<Rightarrow> bool" where
  "re_test r s = re_match r s"

text \<open>
  \<open>s.replace(/r$/, repl)\<close> for a regular expression without the \<open>g\<close> flag: the leftmost
  position from which \<open>r\<close> matches up to the end of the input is replaced; without a
  match the string is returned as it is.
\<close>

fun re_replace :: "re_item list \<Rightarrow> jsstring \<Rightarrow> jsstring \<Rightarrow> jsstring" where
  "re_replace r repl [] = (if re_match r [] then repl else [])"
| "re_replace r repl (c # cs) =
     (if re_match r (c # cs) then repl else c # re_replace r repl cs)"

text \<open>\<open>/\/$/\<close> (line 13).\<close>

definition trailing_slash_re :: "re_item list" where
  "trailing_slash_re = [Once (Literal 0x2F)]"

section \<open>validate (lines 29-43)\<close>

record form =
  name_value :: jsstring
  email_value :: jsstring
  message_value :: jsstring
  consent_checked :: bool

record form_data =
  d_name :: jsstring
  d_email :: jsstring
  d_message :: jsstring

text \<open>
  The \<open>errors\<close> object is an association list in insertion order; \<open>errors.k = v\<close> is
  \<open>AList.update\<close>, and \<open>Object.keys(errors).length\<close> is the number of its keys.
\<close>

record validation =
  v_ok :: bool
  v_errors :: "(string \<times> jsstring) list"
  v_data :: form_data

definition validate :: "form \<Rightarrow> validation" where
  "validate f =
     (let name = trim (name_value f);
          email = trim (email_value f);
          message = trim (message_value f);
          consent = consent_checked f;
          errors0 = [];
          errors1 = (if length name < 2
                     then AList.update ''name'' (ascii ''Please enter your full name.'') errors0
                     else errors0);
          emailOk = re_test email_re email;
          errors2 = (if \<not> emailOk
                     then AList.update ''email'' (ascii ''Please enter a valid email.'') errors1
                     else errors1);
          errors3 = (if length message < 10
                     then AList.update ''message'' (ascii ''Please provide a few more details.'') errors2
                     else errors2);
          errors4 = (if \<not> consent
                     then AList.update ''consent'' (ascii ''You must consent to be contacted.'') errors3
                     else errors3)
      in \<lparr> v_ok = (length (map fst errors4) = 0),
           v_errors = errors4,
           v_data = \<lparr> d_name = name, d_email = email, d_message = message \<rparr> \<rparr>)"

section \<open>JavaScript values and promises\<close>

text \<open>
  The values a response body can hold: what \<open>JSON.parse\<close> produces, and a string for a body
  read as text. A number is the exact value of the double; only its type and whether it
  is zero are used. An object is the list of its own properties (distinct names).
\<close>

datatype js_value =
    JNull
  | JBool bool
  | JNum rat
  | JStr jsstring
  | JArr "js_value list"
  | JObj "(jsstring \<times> js_value) list"

datatype js_type = TObject | TBoolean | TNumber | TString

fun typeof :: "js_value \<Rightarrow> js_type" where
  "typeof JNull = TObject"
| "typeof (JBool b) = TBoolean"
| "typeof (JNum n) = TNumber"
| "typeof (JStr s) = TString"
| "typeof (JArr vs) = TObject"
| "typeof (JObj kvs) = TObject"

fun truthy :: "js_value \<Rightarrow> bool" where
  "truthy JNull = False"
| "truthy (JBool b) = b"
| "truthy (JNum n) = (n \<noteq> 0)"
| "truthy (JStr s) = (s \<noteq> [])"
| "truthy (JArr vs) = True"
| "truthy (JObj kvs) = True"

text \<open>
  What a rejected promise or a \<open>throw\<close> carries. \<open>Error v\<close> is \<open>new Error(v)\<close>: its message
  is \<open>v\<close> converted to a string, which is \<open>s\<close> itself for \<open>JStr s\<close>. \<open>fetch\<close> rejects with a
  \<open>TypeError\<close> on a network failure and with an \<open>AbortError\<close> when its signal aborts;
  \<open>res.json()\<close> rejects with a \<open>SyntaxError\<close> on a body that is not JSON; reading a property
  of \<open>null\<close> throws a \<open>TypeError\<close>.
\<close>

datatype js_error = Error js_value | TypeError | SyntaxError | AbortError

text \<open>
  \<open>v.k\<close> for the two property names this program reads, \<open>message\<close> and \<open>API_BASE_URL\<close>:
  \<open>None\<close> is \<open>undefined\<close>. Booleans, numbers, strings and arrays have no property of these
  names. \<open>opt_member\<close> is \<open>v?.k\<close>.
\<close>

fun member :: "js_value \<Rightarrow> jsstring \<Rightarrow> js_error + js_value option" where
  "member JNull k = Inl TypeError"
| "member (JObj kvs) k = Inr (map_of kvs k)"
| "member v k = Inr None"

fun opt_member :: "js_value \<Rightarrow> jsstring \<Rightarrow> js_value option" where
  "opt_member (JObj kvs) k = map_of kvs k"
| "opt_member v k = None"

text \<open>
  A \<open>Response\<close>, with what its body promises settle to (the body is read once, by
  \<open>res.json()\<close> or by \<open>res.text()\<close>). \<open>res.ok\<close> is true for a status from 200 to 299.
\<close>

record response =
  res_status :: nat
  res_statusText :: jsstring
  res_content_type :: "jsstring option"   \<comment> \<open>\<open>res.headers.get("content-type")\<close>\<close>
  res_json :: "js_error + js_value"
  res_text :: "js_error + jsstring"

definition res_ok :: "response \<Rightarrow> bool" where
  "res_ok r \<longleftrightarrow> 200 \<le> res_status r \<and> res_status r \<le> 299"

text \<open>\<open>s.includes(p)\<close>: \<open>p\<close> occurs in \<open>s\<close> as a substring (case-sensitive).\<close>

fun includes_str :: "jsstring \<Rightarrow> jsstring \<Rightarrow> bool" where
  "includes_str [] p = (p = [])"
| "includes_str (c # cs) p = (take (length p) (c # cs) = p \<or> includes_str cs p)"

section \<open>The page\<close>

text \<open>
  The part of the document that app.js reads and writes. The elements \<open>#lead-form\<close>,
  \<open>#submit-btn\<close>, \<open>#reset-btn\<close>, \<open>#success\<close> and \<open>#failure\<close> exist (index.html is not among
  the sources); \<open>error_slots\<close> lists the \<open>.error[data-for=k]\<close> nodes that exist, with their
  text. \<open>form_defaults\<close> is what \<open>form.reset()\<close> restores.
\<close>

record dom =
  submit_disabled :: bool
  submit_loading :: bool          \<comment> \<open>the class \<open>loading\<close> on \<open>#submit-btn\<close>\<close>
  success_hidden :: bool
  success_content :: jsstring
  failure_hidden :: bool
  failure_content :: jsstring
  error_slots :: "(string \<times> jsstring) list"
  form_fields :: form
  form_defaults :: form

text \<open>What the page knows of the browser when a submission is made.\<close>

record browser =
  search_params :: "(jsstring \<times> jsstring) list"
    \<comment> \<open>the entries of \<open>new URLSearchParams(location.search)\<close>, in order\<close>
  user_agent :: jsstring          \<comment> \<open>\<open>navigator.userAgent\<close>\<close>
  referrer :: jsstring            \<comment> \<open>\<open>document.referrer\<close>, empty when there is none\<close>
  now_iso :: jsstring             \<comment> \<open>\<open>new Date().toISOString()\<close>\<close>

record payload =
  p_name :: jsstring
  p_email :: jsstring
  p_message :: jsstring
  p_utm :: "(string \<times> jsstring) list"
  p_userAgent :: jsstring
  p_referer :: "jsstring option"  \<comment> \<open>\<open>None\<close> is \<open>null\<close>\<close>
  p_ts :: jsstring

text \<open>
  Every step of app.js that touches the page or the network is recorded with the page as
  it is right after the step.
\<close>

datatype action =
    FetchConfig                   \<comment> \<open>\<open>fetch("./config.json")\<close>\<close>
  | DisableSubmit                 \<comment> \<open>line 118\<close>
  | ShowAlert string bool         \<comment> \<open>\<open>showAlert(type, visible, ...)\<close>\<close>
  | Validate                      \<comment> \<open>line 128\<close>
  | ShowErrors
  | SetLoading bool
  | Post jsstring payload         \<comment> \<open>\<open>fetch(url, {method: "POST", body: JSON.stringify(body)})\<close>\<close>
  | FormReset

record client =
  API_BASE_URL :: "jsstring option"      \<comment> \<open>\<open>None\<close> is \<open>null\<close>\<close>
  page :: dom
  submit_listener :: bool
  reset_listener :: bool
  trace :: "(action \<times> dom) list"

definition perform :: "action \<Rightarrow> (dom \<Rightarrow> dom) \<Rightarrow> client \<Rightarrow> client" where
  "perform a f c = c\<lparr> page := f (page c), trace := trace c @ [(a, f (page c))] \<rparr>"

section \<open>The functions of app.js\<close>

subsection \<open>loadConfig (lines 7-18)\<close>

text \<open>
  \<open>config\<close> is what \<open>fetch("./config.json")\<close> settles to. Every exception inside the \<open>try\<close>
  is swallowed, and \<open>API_BASE_URL\<close> keeps its value.
\<close>

definition loadConfig :: "js_error + response \<Rightarrow> jsstring option \<Rightarrow> jsstring option" where
  "loadConfig config api =
     (case config of
        Inl err \<Rightarrow> api
      | Inr res \<Rightarrow>
          if \<not> res_ok res then api
          else (case res_json res of
                  Inl err \<Rightarrow> api
                | Inr cfg \<Rightarrow>
                    (case member cfg (ascii ''API_BASE_URL'') of
                       Inl err \<Rightarrow> api
                     | Inr (Some (JStr u)) \<Rightarrow>
                         if trim u \<noteq> [] then Some (re_replace trailing_slash_re [] (trim u))
                         else api
                     | Inr other \<Rightarrow> api)))"

subsection \<open>parseUTM (lines 20-27)\<close>

definition utm_keys :: "string list" where
  "utm_keys = [''utm_source'', ''utm_medium'', ''utm_campaign'', ''utm_term'', ''utm_content'']"

text \<open>\<open>p.get(k)\<close>: the value of the first entry named \<open>k\<close>, \<open>None\<close> for \<open>null\<close>.\<close>

definition params_get :: "(jsstring \<times> jsstring) list \<Rightarrow> string \<Rightarrow> jsstring option" where
  "params_get p k = map_of p (ascii k)"

definition parseUTM :: "browser \<Rightarrow> (string \<times> jsstring) list" where
  "parseUTM b =
     fold (\<lambda>k obj. case params_get (search_params b) k of
                      None \<Rightarrow> obj
                    | Some v \<Rightarrow> if v \<noteq> [] then AList.update k v obj else obj)
          utm_keys []"

subsection \<open>showErrors, setLoading, showAlert (lines 45-65)\<close>

definition showErrors :: "(string \<times> jsstring) list \<Rightarrow> dom \<Rightarrow> dom" where
  "showErrors errors d =
     d\<lparr> error_slots :=
          fold (\<lambda>k slots. if map_of slots k \<noteq> None
                           then AList.update k (case map_of errors k of
                                                  None \<Rightarrow> []
                                                | Some m \<Rightarrow> if m \<noteq> [] then m else []) slots
                           else slots)
               [''name'', ''email'', ''message'', ''consent''] (error_slots d) \<rparr>"

definition setLoading :: "bool \<Rightarrow> dom \<Rightarrow> dom" where
  "setLoading loading d = d\<lparr> submit_loading := loading, submit_disabled := loading \<rparr>"

definition set_content :: "string \<Rightarrow> jsstring \<Rightarrow> dom \<Rightarrow> dom" where
  "set_content ident t d =
     (if ident = ''success'' then d\<lparr> success_content := t \<rparr> else d\<lparr> failure_content := t \<rparr>)"

definition set_hidden :: "string \<Rightarrow> bool \<Rightarrow> dom \<Rightarrow> dom" where
  "set_hidden ident h d =
     (if ident = ''success'' then d\<lparr> success_hidden := h \<rparr> else d\<lparr> failure_hidden := h \<rparr>)"

definition showAlert :: "string \<Rightarrow> bool \<Rightarrow> jsstring option \<Rightarrow> dom \<Rightarrow> dom" where
  "showAlert kind visible customText d =
     (let ident = (if kind = ''success'' then ''success'' else ''failure'');
          d1 = (case customText of
                  None \<Rightarrow> d
                | Some t \<Rightarrow> if t \<noteq> [] then set_content ident t d else d);
          d2 = set_hidden ident (\<not> visible) d1
      in set_hidden (if ident = ''success'' then ''failure'' else ''success'') True d2)"

subsection \<open>buildPayload (lines 67-77)\<close>

definition buildPayload :: "browser \<Rightarrow> form \<Rightarrow> payload" where
  "buildPayload b f =
     (let data = v_data (validate f);
          utm = parseUTM b
      in \<lparr> p_name = d_name data, p_email = d_email data, p_message = d_message data,
           p_utm = utm,
           p_userAgent = user_agent b,
           p_referer = (if referrer b \<noteq> [] then Some (referrer b) else None),
           p_ts = now_iso b \<rparr>)"

subsection \<open>postJSON (lines 79-102)\<close>

text \<open>
  \<open>outcome\<close> is what the \<open>fetch\<close> of line 83 settles to; the timer of line 81 aborts it
  after \<open>timeoutMs\<close>, which makes it reject. \<open>settle\<close> is the rest of the function (lines
  90-101) on that outcome: \<open>Inl\<close> is a thrown error, and the \<open>catch\<close> block throws again
  what it caught.
\<close>

definition settle :: "js_error + response \<Rightarrow> js_error + js_value" where
  "settle outcome =
     (case outcome of
        Inl err \<Rightarrow> Inl err
      | Inr res \<Rightarrow>
          (let isJson = (case res_content_type res of
                           None \<Rightarrow> False
                         | Some ct \<Rightarrow> includes_str ct (ascii ''application/json''));
               body_read = (if isJson then res_json res
                            else (case res_text res of Inl err \<Rightarrow> Inl err | Inr t \<Rightarrow> Inr (JStr t)))
           in case body_read of
                Inl err \<Rightarrow> Inl err
              | Inr payload \<Rightarrow>
                  if \<not> res_ok res then
                    (let errMsg =
                           (if typeof payload = TObject \<and>
                               (case opt_member payload (ascii ''message'') of
                                  None \<Rightarrow> False | Some m \<Rightarrow> truthy m)
                            then the (opt_member payload (ascii ''message''))
                            else JStr (res_statusText res))
                     in Inl (Error (if truthy errMsg then errMsg
                                    else JStr (ascii ''Request failed''))))
                  else Inr payload))"

definition postJSON ::
  "jsstring \<Rightarrow> payload \<Rightarrow> js_error + response \<Rightarrow> client \<Rightarrow> client \<times> (js_error + js_value)" where
  "postJSON url body outcome c = (perform (Post url body) (\<lambda>d. d) c, settle outcome)"

subsection \<open>The listeners (lines 108-152)\<close>

text \<open>The two texts of lines 119 and 141; each starts with a character outside ASCII.\<close>

definition config_pending_text :: jsstring where
  "config_pending_text =
     [0x2699, 0xFE0F] @ ascii '' Form not configured yet. Please try again later.''"

definition submit_failed_text :: jsstring where
  "submit_failed_text =
     [0x274C] @ ascii '' Something went wrong. Please try again in a moment.''"

text \<open>\<open>`${API_BASE_URL}/lead`\<close>: \<open>null\<close> is written as the text \<open>null\<close>.\<close>

definition lead_url :: "jsstring option \<Rightarrow> jsstring" where
  "lead_url api = (case api of None \<Rightarrow> ascii ''null'' | Some u \<Rightarrow> u) @ ascii ''/lead''"

text \<open>
  The submit listener (lines 123-145), run to its end: \<open>b\<close> is the browser at the time of
  the submission and \<open>outcome\<close> what the POST settles to. The \<open>finally\<close> block runs on both
  branches of the \<open>try\<close>. Writing to the console is not recorded.
\<close>

definition on_submit :: "browser \<Rightarrow> js_error + response \<Rightarrow> client \<Rightarrow> client" where
  "on_submit b outcome c0 =
     (let c1 = perform (ShowAlert ''success'' False) (showAlert ''success'' False None) c0;
          c2 = perform (ShowAlert ''error'' False) (showAlert ''error'' False None) c1;
          v = validate (form_fields (page c2));
          c3 = perform Validate (\<lambda>d. d) c2;
          c4 = perform ShowErrors (showErrors (v_errors v)) c3
      in if \<not> v_ok v then c4
         else
           (let c5 = perform (SetLoading True) (setLoading True) c4;
                body = buildPayload b (form_fields (page c5));
                posted = postJSON (lead_url (API_BASE_URL c5)) body outcome c5;
                c6 = fst posted;
                c7 = (case snd posted of
                        Inr resp \<Rightarrow>
                          perform FormReset (\<lambda>d. d\<lparr> form_fields := form_defaults d \<rparr>)
                            (perform (ShowAlert ''success'' True) (showAlert ''success'' True None) c6)
                      | Inl err \<Rightarrow>
                          perform (ShowAlert ''error'' True)
                            (showAlert ''error'' True (Some submit_failed_text)) c6)
            in perform (SetLoading False) (setLoading False) c7))"

text \<open>The click listener of the reset button (lines 147-151).\<close>

definition on_reset_click :: "client \<Rightarrow> client" where
  "on_reset_click c0 =
     (let c1 = perform ShowErrors (showErrors []) c0;
          c2 = perform (ShowAlert ''success'' False) (showAlert ''success'' False None) c1
      in perform (ShowAlert ''error'' False) (showAlert ''error'' False None) c2)"

text \<open>
  The \<open>DOMContentLoaded\<close> listener (lines 108-152); \<open>config\<close> is what the fetch of
  \<open>./config.json\<close> settles to. \<open>initYear\<close> writes the year into the element \<open>#year\<close>, which
  exists too, and is left out.
\<close>

definition on_DOMContentLoaded :: "js_error + response \<Rightarrow> client \<Rightarrow> client" where
  "on_DOMContentLoaded config c0 =
     (let c1 = perform FetchConfig (\<lambda>d. d) c0;
          c2 = c1\<lparr> API_BASE_URL := loadConfig config (API_BASE_URL c1) \<rparr>
      in if (case API_BASE_URL c2 of None \<Rightarrow> True | Some u \<Rightarrow> u = []) then
           perform (ShowAlert ''error'' True) (showAlert ''error'' True (Some config_pending_text))
             (perform DisableSubmit (\<lambda>d. d\<lparr> submit_disabled := True \<rparr>) c2)
         else c2\<lparr> submit_listener := True, reset_listener := True \<rparr>)"

subsection \<open>The life of the page\<close>

text \<open>
  The script starts with \<open>API_BASE_URL = null\<close> (line 2) and no listener. After
  \<open>DOMContentLoaded\<close> the page receives events: the content of the form changes (\<open>Edit\<close>:
  the user types, or the browser resets the form), the form is submitted, or the reset
  button is clicked. An event with no listener registered leaves the state of app.js as
  it is. A listener runs to its end before the next event is taken: a second event that
  arrives while a request is in flight is not interleaved with the first.
\<close>

definition initial_client :: "dom \<Rightarrow> client" where
  "initial_client d =
     \<lparr> API_BASE_URL = None, page = d, submit_listener = False, reset_listener = False,
       trace = [] \<rparr>"

datatype event =
    Edit form
  | Submit browser "js_error + response"
  | ResetClick

fun dispatch :: "event \<Rightarrow> client \<Rightarrow> client" where
  "dispatch (Edit f) c = c\<lparr> page := (page c)\<lparr> form_fields := f \<rparr> \<rparr>"
| "dispatch (Submit b outcome) c = (if submit_listener c then on_submit b outcome c else c)"
| "dispatch ResetClick c = (if reset_listener c then on_reset_click c else c)"

definition run_page :: "js_error + response \<Rightarrow> dom \<Rightarrow> event list \<Rightarrow> client" where
  "run_page config d events = fold dispatch events (on_DOMContentLoaded config (initial_client d))"

text \<open>The requests sent to the intake endpoint, and the pages recorded at a kind of step.\<close>

fun is_post :: "action \<times> dom \<Rightarrow> bool" where
  "is_post (Post url body, d) = True"
| "is_post (a, d) = False"

definition posts :: "(action \<times> dom) list \<Rightarrow> (action \<times> dom) list" where
  "posts tr = filter is_post tr"

section \<open>The specification's words for the client\<close>

text \<open>
  The specification's \<open>permissive local@domain.tld pattern\<close>: three non-empty parts, free of
  white space and of \<open>@\<close>, the first two separated by \<open>@\<close> and the last two by a dot.
\<close>

definition plain :: "jsstring \<Rightarrow> bool" where
  "plain s = list_all (\<lambda>c. \<not> is_space c \<and> c \<noteq> 0x40) s"

definition local_domain_tld :: "jsstring \<Rightarrow> bool" where
  "local_domain_tld s \<longleftrightarrow>
     (\<exists>l d t. s = l @ [0x40] @ d @ [0x2E] @ t \<and> l \<noteq> [] \<and> d \<noteq> [] \<and> t \<noteq> [] \<and>
        plain l \<and> plain d \<and> plain t)"


text \<open>
  A usable runtime configuration document: the fetch succeeded with a document that parses
  to an object whose \<open>API_BASE_URL\<close> is a non-empty string.
\<close>

definition has_base_url :: "js_error + response \<Rightarrow> bool" where
  "has_base_url config \<longleftrightarrow>
     (case config of
        Inl err \<Rightarrow> False
      | Inr res \<Rightarrow>
          res_ok res \<and>
          (case res_json res of
             Inr (JObj kvs) \<Rightarrow>
               (case map_of kvs (ascii ''API_BASE_URL'') of
                  Some (JStr u) \<Rightarrow> u \<noteq> []
                | other \<Rightarrow> False)
           | other \<Rightarrow> False))"

text \<open>At most one, and exactly one, of the two banners is visible.\<close>

definition at_most_one_banner :: "dom \<Rightarrow> bool" where
  "at_most_one_banner d \<longleftrightarrow> success_hidden d \<or> failure_hidden d"

definition exactly_one_banner :: "dom \<Rightarrow> bool" where
  "exactly_one_banner d \<longleftrightarrow> (success_hidden d \<noteq> failure_hidden d)"

text \<open>
  The content type of a response indicates JSON: the header is present and contains
  \<open>application/json\<close>.
\<close>

definition indicates_json :: "response \<Rightarrow> bool" where
  "indicates_json res \<longleftrightarrow>
     (case res_content_type res of
        None \<Rightarrow> False
      | Some ct \<Rightarrow> includes_str ct (ascii ''application/json''))"

text \<open>
  The server-supplied message field of a parsed body: the \<open>message\<close> property of an
  object, when it has one.
\<close>

definition server_message :: "js_value \<Rightarrow> js_value option" where
  "server_message v = (case v of JObj kvs \<Rightarrow> map_of kvs (ascii ''message'') | other \<Rightarrow> None)"

text \<open>
  The body of a response as the specification reads it: parsed as JSON when the content
  type indicates JSON, and as text otherwise. \<open>Inl\<close> when reading or parsing fails.
\<close>

definition read_body :: "response \<Rightarrow> js_error + js_value" where
  "read_body res =
     (if indicates_json res then res_json res
      else (case res_text res of Inl err \<Rightarrow> Inl err | Inr t \<Rightarrow> Inr (JStr t)))"

text \<open>The page after the two calls of lines 125-126, which start a submission.\<close>

definition cleared :: "dom \<Rightarrow> dom" where
  "cleared d = showAlert ''error'' False None (showAlert ''success'' False None d)"

text \<open>\<open>s\<close> ends with \<open>t\<close>; and \<open>s\<close> without one trailing slash.\<close>

definition ends_with :: "jsstring \<Rightarrow> jsstring \<Rightarrow> bool" where
  "ends_with s t \<longleftrightarrow> length t \<le> length s \<and> drop (length s - length t) s = t"

definition strip_one_slash :: "jsstring \<Rightarrow> jsstring" where
  "strip_one_slash s = (if ends_with s [0x2F] then butlast s else s)"

text \<open>The URL of a recorded request (empty for any other step).\<close>

fun post_url :: "action \<times> dom \<Rightarrow> jsstring" where
  "post_url (Post url body, d) = url"
| "post_url (a, d) = []"

text \<open>
  Two properties of a client that every event keeps: at most one banner is visible on
  every recorded page and on the current one; and every recorded request went to \<open>url\<close>.
\<close>

definition banners_ok :: "client \<Rightarrow> bool" where
  "banners_ok c \<longleftrightarrow>
     list_all (\<lambda>s. at_most_one_banner (snd s)) (trace c) \<and> at_most_one_banner (page c)"

definition posts_to :: "jsstring \<Rightarrow> client \<Rightarrow> bool" where
  "posts_to url c \<longleftrightarrow> list_all (\<lambda>s. post_url s = url) (posts (trace c))"

text \<open>The steps a listener added to the trace.\<close>

definition new_steps :: "client \<Rightarrow> client \<Rightarrow> (action \<times> dom) list" where
  "new_steps c c' = drop (length (trace c)) (trace c')"

section \<open>The Lead Intake Handler\<close>

text \<open>
  Modelled from the spec: the handler's code is not among the sources (of the handler only
  its README is), so the request, the configuration, the record and the handler itself
  follow sections 3, 4.2 and 6 of the specification. Timestamps are seconds since the
  epoch and a day is 86400 seconds. The store and the email service are external: what
  they answer for one request is given by \<open>services\<close>.
\<close>

record lead_request =
  rq_body :: "js_value option"          \<comment> \<open>\<open>None\<close>: the body is missing or is not valid JSON\<close>
  rq_origin :: "jsstring option"

record handler_config =
  hc_table :: jsstring
  hc_sender :: jsstring
  hc_owners :: "jsstring list"          \<comment> \<open>empty when no owner list is configured\<close>
  hc_allowed_origins :: "jsstring list"
  hc_retention_days :: "nat option"     \<comment> \<open>the retention window, when one is set\<close>

record services =
  sv_fresh_id :: jsstring
  sv_now :: int
  sv_store_ok :: bool
  sv_confirmation_ok :: bool
  sv_owner_alert_ok :: bool

record lead_record =
  lr_id :: jsstring
  lr_name :: jsstring
  lr_email :: jsstring
  lr_message :: jsstring
  lr_utm :: "(string \<times> jsstring) list"
  lr_userAgent :: "jsstring option"
  lr_referer :: "jsstring option"
  lr_submittedAt :: int
  lr_expiresAt :: "int option"

datatype notification =
    Confirmation jsstring lead_record         \<comment> \<open>to the submitter's address\<close>
  | OwnerAlert "jsstring list" lead_record    \<comment> \<open>to the owner addresses\<close>

record handler_run =
  hr_status :: nat
  hr_body :: js_value
  hr_allow_origin :: "jsstring option"
  hr_stored :: "lead_record list"             \<comment> \<open>the records written to the store\<close>
  hr_notified :: "notification list"          \<comment> \<open>the notifications attempted\<close>
  hr_logged :: "notification list"            \<comment> \<open>the notification failures logged\<close>

text \<open>Modelled from the spec: a field of the request body that is a string.\<close>

definition str_field :: "js_value \<Rightarrow> string \<Rightarrow> jsstring option" where
  "str_field v k =
     (case opt_member v (ascii k) of Some (JStr s) \<Rightarrow> Some s | other \<Rightarrow> None)"

text \<open>
  Modelled from the spec: the server-side validation of section 4.2, step 1, with the
  rules of the table of section 4.1 on the trimmed fields. The result is the sanitized
  \<open>name\<close>, \<open>email\<close> and \<open>message\<close>.
\<close>

definition validate_lead :: "js_value option \<Rightarrow> form_data option" where
  "validate_lead body =
     (case body of
        None \<Rightarrow> None
      | Some v \<Rightarrow>
          (case (str_field v ''name'', str_field v ''email'', str_field v ''message'') of
             (Some n, Some e, Some m) \<Rightarrow>
               if 2 \<le> length (trim n) \<and> re_test email_re (trim e) \<and> 10 \<le> length (trim m)
               then Some \<lparr> d_name = trim n, d_email = trim e, d_message = trim m \<rparr>
               else None
           | other \<Rightarrow> None))"

text \<open>
  Modelled from the spec: the attribution mapping of the record, the recognized keys that
  the client supplied.
\<close>

definition utm_of :: "js_value \<Rightarrow> (string \<times> jsstring) list" where
  "utm_of v =
     (case opt_member v (ascii ''utm'') of
        None \<Rightarrow> []
      | Some u \<Rightarrow>
          concat (map (\<lambda>k. case str_field u k of None \<Rightarrow> [] | Some x \<Rightarrow> [(k, x)]) utm_keys))"

text \<open>
  Modelled from the spec: the expiry timestamp of section 4.2, step 3, computed only if a
  retention window is configured, as \<open>submittedAt\<close> plus the window. Section 3 makes it a
  forward timestamp, strictly greater than \<open>submittedAt\<close> whenever it is present, so a
  window is at least one day long: a value of 0 days configures no window.
\<close>

definition expiry :: "nat option \<Rightarrow> int \<Rightarrow> int option" where
  "expiry days submittedAt =
     (case days of
        None \<Rightarrow> None
      | Some n \<Rightarrow> if 0 < n then Some (submittedAt + int n * 86400) else None)"

text \<open>Modelled from the spec: the CORS header reflects an origin of the allow-list only.\<close>

definition allow_origin :: "handler_config \<Rightarrow> lead_request \<Rightarrow> jsstring option" where
  "allow_origin cfg rq =
     (case rq_origin rq of
        None \<Rightarrow> None
      | Some origin \<Rightarrow> if origin \<in> set (hc_allowed_origins cfg) then Some origin else None)"

text \<open>Modelled from the spec: the structured error body \<open>{message: string}\<close> of section 6.\<close>

definition message_body :: "string \<Rightarrow> js_value" where
  "message_body m = JObj [(ascii ''message'', JStr (ascii m))]"

text \<open>
  Modelled from the spec: the processing sequence of section 4.2. Validation failure
  answers 400 with no store write and no email; a failed store write answers 500 and
  nothing is notified; after a successful write the confirmation and the owner alert are
  attempted, their failures are logged, and the answer is 200 with the generated id.
\<close>

definition lead_handler :: "handler_config \<Rightarrow> services \<Rightarrow> lead_request \<Rightarrow> handler_run" where
  "lead_handler cfg sv rq =
     (case validate_lead (rq_body rq) of
        None \<Rightarrow>
          \<lparr> hr_status = 400, hr_body = message_body ''Invalid request'',
            hr_allow_origin = allow_origin cfg rq,
            hr_stored = [], hr_notified = [], hr_logged = [] \<rparr>
      | Some sanitized \<Rightarrow>
          (let body = the (rq_body rq);
               submittedAt = sv_now sv;
               lead = \<lparr> lr_id = sv_fresh_id sv,
                        lr_name = d_name sanitized, lr_email = d_email sanitized,
                        lr_message = d_message sanitized,
                        lr_utm = utm_of body,
                        lr_userAgent = str_field body ''userAgent'',
                        lr_referer = str_field body ''referer'',
                        lr_submittedAt = submittedAt,
                        lr_expiresAt = expiry (hc_retention_days cfg) submittedAt \<rparr>
           in if \<not> sv_store_ok sv then
                \<lparr> hr_status = 500, hr_body = message_body ''Internal error'',
                  hr_allow_origin = allow_origin cfg rq,
                  hr_stored = [], hr_notified = [], hr_logged = [] \<rparr>
              else
                (let owners = (if hc_owners cfg = [] then [hc_sender cfg] else hc_owners cfg);
                     attempts = [(Confirmation (lr_email lead) lead, sv_confirmation_ok sv),
                                 (OwnerAlert owners lead, sv_owner_alert_ok sv)]
                 in \<lparr> hr_status = 200, hr_body = JObj [(ascii ''id'', JStr (lr_id lead))],
                      hr_allow_origin = allow_origin cfg rq,
                      hr_stored = [lead],
                      hr_notified = map fst attempts,
                      hr_logged = map fst (filter (\<lambda>a. \<not> snd a) attempts) \<rparr>)))"

section \<open>Concrete inputs\<close>

text \<open>
  The submission of the specification's scenario, a page as it is loaded, a browser, and
  some responses and handler configurations, for evaluating the definitions.
\<close>

definition jane_form :: form where
  "jane_form =
     \<lparr> name_value = ascii ''Jane'', email_value = ascii ''jane@example.com'',
       message_value = ascii ''Hello, I am interested in your services!'',
       consent_checked = True \<rparr>"


definition blank_form :: form where
  "blank_form =
     \<lparr> name_value = [], email_value = [], message_value = [], consent_checked = False \<rparr>"

definition loaded_page :: "form \<Rightarrow> dom" where
  "loaded_page f =
     \<lparr> submit_disabled = False, submit_loading = False,
       success_hidden = True, success_content = [],
       failure_hidden = True, failure_content = [],
       error_slots = [(''name'', []), (''email'', []), (''message'', []), (''consent'', [])],
       form_fields = f, form_defaults = blank_form \<rparr>"

definition linkedin_browser :: browser where
  "linkedin_browser =
     \<lparr> search_params = [(ascii ''utm_source'', ascii ''linkedin''),
                         (ascii ''utm_medium'', []),
                         (ascii ''page'', ascii ''2'')],
       user_agent = ascii ''curl/8.0'',
       referrer = [],
       now_iso = ascii ''2026-01-01T00:00:00.000Z'' \<rparr>"

definition config_response :: "jsstring \<Rightarrow> response" where
  "config_response u =
     \<lparr> res_status = 200, res_statusText = ascii ''OK'',
       res_content_type = Some (ascii ''application/json''),
       res_json = Inr (JObj [(ascii ''API_BASE_URL'', JStr u)]),
       res_text = Inr ([0x7B, 0x22] @ ascii ''API_BASE_URL'' @ [0x22, 0x3A, 0x22] @ u @ [0x22, 0x7D]) \<rparr>"

definition not_found_response :: response where
  "not_found_response =
     \<lparr> res_status = 404, res_statusText = ascii ''Not Found'',
       res_content_type = Some (ascii ''text/html''),
       res_json = Inl SyntaxError,
       res_text = Inr (ascii ''<h1>Not Found</h1>'') \<rparr>"

definition accepted_response :: response where
  "accepted_response =
     \<lparr> res_status = 200, res_statusText = ascii ''OK'',
       res_content_type = Some (ascii ''application/json''),
       res_json = Inr (JObj [(ascii ''id'', JStr (ascii ''lead-1''))]),
       res_text = Inr ([0x7B, 0x22] @ ascii ''id'' @ [0x22, 0x3A, 0x22] @ ascii ''lead-1'' @ [0x22, 0x7D]) \<rparr>"

definition bare_500_response :: response where
  "bare_500_response =
     \<lparr> res_status = 500, res_statusText = [],
       res_content_type = Some (ascii ''text/plain''),
       res_json = Inl SyntaxError,
       res_text = Inr (ascii ''Internal Server Error'') \<rparr>"

definition rejected_response :: response where
  "rejected_response =
     \<lparr> res_status = 400, res_statusText = ascii ''Bad Request'',
       res_content_type = Some (ascii ''application/json; charset=utf-8''),
       res_json = Inr (JObj [(ascii ''message'', JStr (ascii ''Invalid request''))]),
       res_text = Inr ([0x7B, 0x22] @ ascii ''message'' @ [0x22, 0x3A, 0x22] @ ascii ''Invalid request'' @ [0x22, 0x7D]) \<rparr>"

definition jane_request :: lead_request where
  "jane_request =
     \<lparr> rq_body = Some (JObj [(ascii ''name'', JStr (ascii ''Jane'')),
                            (ascii ''email'', JStr (ascii ''jane@example.com'')),
                            (ascii ''message'', JStr (ascii ''Hello, I am interested in your services!'')),
                            (ascii ''utm'', JObj [(ascii ''utm_source'', JStr (ascii ''linkedin''))])]),
       rq_origin = Some (ascii ''https://dxxxx.cloudfront.net'') \<rparr>"

definition leads_config :: "nat option \<Rightarrow> handler_config" where
  "leads_config days =
     \<lparr> hc_table = ascii ''Leads'', hc_sender = ascii ''noreply@example.com'',
       hc_owners = [], hc_allowed_origins = [ascii ''https://dxxxx.cloudfront.net''],
       hc_retention_days = days \<rparr>"

definition services_at :: "bool \<Rightarrow> bool \<Rightarrow> bool \<Rightarrow> services" where
  "services_at store_ok confirmation_ok owner_ok =
     \<lparr> sv_fresh_id = ascii ''lead-1'', sv_now = 1767225600,
       sv_store_ok = store_ok, sv_confirmation_ok = confirmation_ok,
       sv_owner_alert_ok = owner_ok \<rparr>"

text \<open>A page that loaded a configuration naming \<open>https://api.example.com\<close>.\<close>

definition ready_client :: "form \<Rightarrow> client" where
  "ready_client f =
     run_page (Inr (config_response (ascii ''https://api.example.com''))) (loaded_page f) []"

section \<open>Lemmas\<close>

subsection \<open>The regular expressions and \<open>validate\<close>\<close>

lemma re_match_OneOrMore:
  "re_match (OneOrMore k # r) s \<longleftrightarrow>
     (\<exists>a t. s = a @ t \<and> a \<noteq> [] \<and> list_all (class_matches k) a \<and> re_match r t)"
proof (induction s)
  case Nil
  then show ?case by simp
next
  case (Cons c cs)
  show ?case
  proof
    assume "re_match (OneOrMore k # r) (c # cs)"
    then have c: "class_matches k c"
      and d: "re_match (OneOrMore k # r) cs \<or> re_match r cs" by auto
    from d show "\<exists>a t. c # cs = a @ t \<and> a \<noteq> [] \<and> list_all (class_matches k) a \<and> re_match r t"
    proof
      assume "re_match (OneOrMore k # r) cs"
      with Cons.IH obtain a t
        where "cs = a @ t" "a \<noteq> []" "list_all (class_matches k) a" "re_match r t" by blast
      with c have "c # cs = (c # a) @ t \<and> c # a \<noteq> [] \<and>
          list_all (class_matches k) (c # a) \<and> re_match r t" by simp
      then show ?thesis by blast
    next
      assume "re_match r cs"
      with c have "c # cs = [c] @ cs \<and> [c] \<noteq> [] \<and>
          list_all (class_matches k) [c] \<and> re_match r cs" by simp
      then show ?thesis by blast
    qed
  next
    assume "\<exists>a t. c # cs = a @ t \<and> a \<noteq> [] \<and> list_all (class_matches k) a \<and> re_match r t"
    then obtain a t
      where h: "c # cs = a @ t" "a \<noteq> []" "list_all (class_matches k) a" "re_match r t" by blast
    then obtain a' where a: "a = c # a'" by (cases a) auto
    with h have cs: "cs = a' @ t" and kc: "class_matches k c"
      and ka: "list_all (class_matches k) a'" by auto
    show "re_match (OneOrMore k # r) (c # cs)"
    proof (cases "a' = []")
      case True
      with cs h kc show ?thesis by simp
    next
      case False
      with cs ka h(4) Cons.IH have "re_match (OneOrMore k # r) cs" by blast
      with kc show ?thesis by simp
    qed
  qed
qed

lemma re_match_Once:
  "re_match (Once k # r) s \<longleftrightarrow> (\<exists>c t. s = c # t \<and> class_matches k c \<and> re_match r t)"
  by (cases s) auto

lemma plain_class: "list_all (class_matches NotSpaceOrAt) s = plain s"
  by (induction s) (simp_all add: plain_def)

lemma email_re_pattern: "re_test email_re s \<longleftrightarrow> local_domain_tld s"
proof
  assume "re_test email_re s"
  then obtain l r1 where l: "s = l @ r1" "l \<noteq> []" "plain l"
    and r1: "re_match [Once (Literal 0x40), OneOrMore NotSpaceOrAt, Once (Literal 0x2E),
                       OneOrMore NotSpaceOrAt] r1"
    unfolding re_test_def email_re_def re_match_OneOrMore plain_class by blast
  from r1 obtain r2 where r2: "r1 = 0x40 # r2"
    "re_match [OneOrMore NotSpaceOrAt, Once (Literal 0x2E), OneOrMore NotSpaceOrAt] r2"
    unfolding re_match_Once by auto
  from r2(2) obtain d r3 where d: "r2 = d @ r3" "d \<noteq> []" "plain d"
    and r3: "re_match [Once (Literal 0x2E), OneOrMore NotSpaceOrAt] r3"
    unfolding re_match_OneOrMore plain_class by blast
  from r3 obtain r4 where r4: "r3 = 0x2E # r4" "re_match [OneOrMore NotSpaceOrAt] r4"
    unfolding re_match_Once by auto
  from r4(2) have t: "r4 \<noteq> []" "plain r4"
    unfolding re_match_OneOrMore plain_class by auto
  have "s = l @ [0x40] @ d @ [0x2E] @ r4"
    using l(1) r2(1) d(1) r4(1) by simp
  with l d t show "local_domain_tld s"
    unfolding local_domain_tld_def by blast
next
  assume "local_domain_tld s"
  then obtain l d t where s: "s = l @ [0x40] @ d @ [0x2E] @ t"
    and ne: "l \<noteq> []" "d \<noteq> []" "t \<noteq> []" and pl: "plain l" "plain d" "plain t"
    unfolding local_domain_tld_def by blast
  have 4: "re_match [OneOrMore NotSpaceOrAt] t"
    unfolding re_match_OneOrMore plain_class using ne pl by auto
  then have 3: "re_match [Once (Literal 0x2E), OneOrMore NotSpaceOrAt] ([0x2E] @ t)"
    by simp
  have 2: "re_match [OneOrMore NotSpaceOrAt, Once (Literal 0x2E), OneOrMore NotSpaceOrAt]
             (d @ [0x2E] @ t)"
    unfolding re_match_OneOrMore [of NotSpaceOrAt "[Once (Literal 0x2E), OneOrMore NotSpaceOrAt]"]
      plain_class
    using ne pl 3 by blast
  then have 1: "re_match [Once (Literal 0x40), OneOrMore NotSpaceOrAt, Once (Literal 0x2E),
                          OneOrMore NotSpaceOrAt] ([0x40] @ d @ [0x2E] @ t)"
    by simp
  show "re_test email_re s"
    unfolding re_test_def email_re_def s
      re_match_OneOrMore [of NotSpaceOrAt "[Once (Literal 0x40), OneOrMore NotSpaceOrAt,
        Once (Literal 0x2E), OneOrMore NotSpaceOrAt]"] plain_class
    using ne pl 1 by blast
qed

lemma validate_errors:
  "v_errors (validate f) =
     (if length (trim (name_value f)) < 2
      then [(''name'', ascii ''Please enter your full name.'')] else []) @
     (if \<not> re_test email_re (trim (email_value f))
      then [(''email'', ascii ''Please enter a valid email.'')] else []) @
     (if length (trim (message_value f)) < 10
      then [(''message'', ascii ''Please provide a few more details.'')] else []) @
     (if \<not> consent_checked f
      then [(''consent'', ascii ''You must consent to be contacted.'')] else [])"
  by (simp add: validate_def Let_def)

lemma validate_ok:
  "v_ok (validate f) \<longleftrightarrow>
     2 \<le> length (trim (name_value f)) \<and> re_test email_re (trim (email_value f)) \<and>
     10 \<le> length (trim (message_value f)) \<and> consent_checked f"
  by (auto simp add: validate_def Let_def)


subsection \<open>The page and the submit listener\<close>

lemma showAlert_frame:
  "form_fields (showAlert k v t d) = form_fields d"
  "form_defaults (showAlert k v t d) = form_defaults d"
  "submit_disabled (showAlert k v t d) = submit_disabled d"
  "submit_loading (showAlert k v t d) = submit_loading d"
  "error_slots (showAlert k v t d) = error_slots d"
  by (simp_all add: showAlert_def set_hidden_def set_content_def Let_def split: option.splits)

lemma showAlert_hidden:
  "success_hidden (showAlert k v t d) = (if k = ''success'' then \<not> v else True)"
  "failure_hidden (showAlert k v t d) = (if k = ''success'' then True else \<not> v)"
  by (simp_all add: showAlert_def set_hidden_def set_content_def Let_def split: option.splits)

lemma showAlert_content:
  "failure_content (showAlert ''error'' v (Some t) d) = (if t \<noteq> [] then t else failure_content d)"
  by (simp add: showAlert_def set_hidden_def set_content_def Let_def)

lemma showErrors_frame:
  "form_fields (showErrors e d) = form_fields d"
  "form_defaults (showErrors e d) = form_defaults d"
  "submit_disabled (showErrors e d) = submit_disabled d"
  "submit_loading (showErrors e d) = submit_loading d"
  "success_hidden (showErrors e d) = success_hidden d"
  "failure_hidden (showErrors e d) = failure_hidden d"
  by (simp_all add: showErrors_def)

lemma setLoading_frame:
  "form_fields (setLoading l d) = form_fields d"
  "form_defaults (setLoading l d) = form_defaults d"
  "submit_disabled (setLoading l d) = l"
  "submit_loading (setLoading l d) = l"
  "success_hidden (setLoading l d) = success_hidden d"
  "failure_hidden (setLoading l d) = failure_hidden d"
  "error_slots (setLoading l d) = error_slots d"
  by (simp_all add: setLoading_def)

lemmas frame = showAlert_frame showAlert_hidden showErrors_frame setLoading_frame

lemma perform_simps:
  "page (perform a g c) = g (page c)"
  "trace (perform a g c) = trace c @ [(a, g (page c))]"
  "API_BASE_URL (perform a g c) = API_BASE_URL c"
  "submit_listener (perform a g c) = submit_listener c"
  "reset_listener (perform a g c) = reset_listener c"
  by (simp_all add: perform_def)

lemma new_steps_same: "new_steps c c = []"
  by (simp add: new_steps_def)

lemma new_steps_perform:
  "length (trace c) \<le> length (trace c') \<Longrightarrow>
   new_steps c (perform a g c') = new_steps c c' @ [(a, g (page c'))]"
  by (simp add: new_steps_def perform_simps)

lemma posts_simps:
  "posts [] = []"
  "posts (xs @ ys) = posts xs @ posts ys"
  "posts ((Post url body, d) # xs) = (Post url body, d) # posts xs"
  "posts ((FetchConfig, d) # xs) = posts xs"
  "posts ((DisableSubmit, d) # xs) = posts xs"
  "posts ((ShowAlert k v, d) # xs) = posts xs"
  "posts ((Validate, d) # xs) = posts xs"
  "posts ((ShowErrors, d) # xs) = posts xs"
  "posts ((SetLoading l, d) # xs) = posts xs"
  "posts ((FormReset, d) # xs) = posts xs"
  by (simp_all add: posts_def)

text \<open>The submit listener, branch by branch.\<close>

lemma on_submit_invalid:
  assumes "\<not> v_ok (validate (form_fields (page c)))"
  shows "on_submit b outcome c =
     perform ShowErrors (showErrors (v_errors (validate (form_fields (page c)))))
       (perform Validate (\<lambda>d. d)
         (perform (ShowAlert ''error'' False) (showAlert ''error'' False None)
           (perform (ShowAlert ''success'' False) (showAlert ''success'' False None) c)))"
  using assms by (simp add: on_submit_def Let_def perform_simps showAlert_frame)

lemma on_submit_valid:
  assumes "v_ok (validate (form_fields (page c)))"
  shows "on_submit b outcome c =
     perform (SetLoading False) (setLoading False)
       ((case settle outcome of
           Inl err \<Rightarrow>
             perform (ShowAlert ''error'' True) (showAlert ''error'' True (Some submit_failed_text))
         | Inr resp \<Rightarrow>
             (\<lambda>c'. perform FormReset (\<lambda>d. d\<lparr> form_fields := form_defaults d \<rparr>)
                (perform (ShowAlert ''success'' True) (showAlert ''success'' True None) c')))
        (perform (Post (lead_url (API_BASE_URL c)) (buildPayload b (form_fields (page c)))) (\<lambda>d. d)
          (perform (SetLoading True) (setLoading True)
            (perform ShowErrors (showErrors (v_errors (validate (form_fields (page c)))))
              (perform Validate (\<lambda>d. d)
                (perform (ShowAlert ''error'' False) (showAlert ''error'' False None)
                  (perform (ShowAlert ''success'' False) (showAlert ''success'' False None) c)))))))"
  using assms
  by (simp add: on_submit_def Let_def perform_simps frame postJSON_def split: sum.splits)

lemma on_submit_keeps:
  "API_BASE_URL (on_submit b outcome c) = API_BASE_URL c"
  "submit_listener (on_submit b outcome c) = submit_listener c"
  "reset_listener (on_submit b outcome c) = reset_listener c"
  by (cases "v_ok (validate (form_fields (page c)))";
      simp add: on_submit_invalid on_submit_valid perform_simps split: sum.splits)+

lemma on_submit_trace:
  "trace (on_submit b outcome c) = trace c @ new_steps c (on_submit b outcome c)"
  by (cases "v_ok (validate (form_fields (page c)))";
      simp add: on_submit_invalid on_submit_valid perform_simps new_steps_def split: sum.splits)

lemma fold_slots:
  "map_of (fold (\<lambda>k slots. if map_of slots k \<noteq> None then AList.update k (val k) slots
                            else slots) ks slots) k =
     (if k \<in> set ks \<and> map_of slots k \<noteq> None then Some (val k) else map_of slots k)"
proof (induction ks arbitrary: slots)
  case Nil
  then show ?case by simp
next
  case (Cons a ks)
  have step: "map_of (if map_of slots a \<noteq> None then AList.update a (val a) slots else slots) k =
      (if k = a \<and> map_of slots a \<noteq> None then Some (val a) else map_of slots k)"
    by (simp add: update_conv')
  show ?case
    unfolding fold_simps Cons.IH step by auto
qed

lemma showErrors_slot:
  assumes "k \<in> {''name'', ''email'', ''message'', ''consent''}" "map_of (error_slots d) k \<noteq> None"
  shows "map_of (error_slots (showErrors e d)) k =
           Some (case map_of e k of None \<Rightarrow> [] | Some m \<Rightarrow> m)"
proof -
  let ?val = "\<lambda>k. case map_of e k of None \<Rightarrow> [] | Some m \<Rightarrow> if m \<noteq> [] then m else []"
  let ?ks = "[''name'', ''email'', ''message'', ''consent'']"
  have mem: "k \<in> set ?ks"
    using assms(1) by simp
  have "error_slots (showErrors e d) =
      fold (\<lambda>k slots. if map_of slots k \<noteq> None then AList.update k (?val k) slots else slots)
        ?ks (error_slots d)"
    by (simp add: showErrors_def)
  then have "map_of (error_slots (showErrors e d)) k =
      (if k \<in> set ?ks \<and> map_of (error_slots d) k \<noteq> None then Some (?val k)
       else map_of (error_slots d) k)"
    by (simp only: fold_slots)
  with mem assms(2) have "map_of (error_slots (showErrors e d)) k = Some (?val k)"
    by (simp only: if_True simp_thms)
  then show ?thesis by (simp split: option.splits)
qed

subsection \<open>\<open>parseUTM\<close> and \<open>postJSON\<close>\<close>






lemma settle_ok:
  "res_ok res \<Longrightarrow> settle (Inr res) = read_body res"
  by (simp add: settle_def read_body_def indicates_json_def Let_def split: sum.splits)

lemma settle_failed:
  assumes "\<not> res_ok res" "read_body res = Inr v"
  shows "settle (Inr res) =
     Inl (Error (case server_message v of
                   Some m \<Rightarrow> if truthy m then m
                             else if res_statusText res \<noteq> [] then JStr (res_statusText res)
                             else JStr (ascii ''Request failed'')
                 | None \<Rightarrow> if res_statusText res \<noteq> [] then JStr (res_statusText res)
                           else JStr (ascii ''Request failed'')))"
proof -
  from assms(2) have body: "(if (case res_content_type res of None \<Rightarrow> False
        | Some ct \<Rightarrow> includes_str ct (ascii ''application/json''))
      then res_json res
      else (case res_text res of Inl err \<Rightarrow> Inl err | Inr t \<Rightarrow> Inr (JStr t))) = Inr v"
    by (simp add: read_body_def indicates_json_def)
  have msg: "opt_member v (ascii ''message'') = server_message v"
    by (cases v) (simp_all add: server_message_def)
  have obj: "server_message v \<noteq> None \<Longrightarrow> typeof v = TObject"
    by (cases v) (simp_all add: server_message_def)
  show ?thesis
    unfolding settle_def Let_def sum.case body msg using assms(1) obj
    by (cases "server_message v") auto
qed

lemma settle_unread:
  "read_body res = Inl err \<Longrightarrow> settle (Inr res) = Inl err"
  by (simp add: settle_def read_body_def indicates_json_def Let_def split: sum.splits if_splits)

subsection \<open>The life of the page\<close>

text \<open>The page after \<open>DOMContentLoaded\<close>, and events on a page without listeners.\<close>

lemma has_base_url_loadConfig:
  "\<not> has_base_url config \<Longrightarrow> loadConfig config None = None"
proof (cases config)
  case (Inl err)
  then show ?thesis by (simp add: loadConfig_def)
next
  case (Inr res)
  assume no: "\<not> has_base_url config"
  show ?thesis
  proof (cases "res_ok res")
    case False
    with Inr show ?thesis by (simp add: loadConfig_def)
  next
    case True
    show ?thesis
    proof (cases "res_json res")
      case (Inl err)
      with Inr True show ?thesis by (simp add: loadConfig_def)
    next
      case json: (Inr cfg)
      show ?thesis
      proof (cases cfg)
        case (JObj kvs)
        with no Inr True json have "\<And>u. map_of kvs (ascii ''API_BASE_URL'') = Some (JStr u) \<Longrightarrow> u = []"
          by (auto simp add: has_base_url_def)
        then have "\<And>u. map_of kvs (ascii ''API_BASE_URL'') = Some (JStr u) \<Longrightarrow> trim u = []"
          by (auto simp add: trim_def)
        with Inr True json JObj show ?thesis
          by (auto simp add: loadConfig_def split: option.splits js_value.splits)
      qed (use Inr True json in \<open>simp_all add: loadConfig_def\<close>)
    qed
  qed
qed

lemma loadConfig_document:
  assumes "config = Inr res" "res_ok res" "res_json res = Inr (JObj kvs)"
    "map_of kvs (ascii ''API_BASE_URL'') = Some (JStr u)" "trim u \<noteq> []"
  shows "loadConfig config None = Some (re_replace trailing_slash_re [] (trim u))"
  using assms by (simp add: loadConfig_def)

lemma on_DOMContentLoaded_unconfigured:
  assumes "loadConfig config None = None \<or> loadConfig config None = Some []"
  shows "on_DOMContentLoaded config (initial_client d) =
     \<lparr> API_BASE_URL = loadConfig config None,
       page = showAlert ''error'' True (Some config_pending_text) (d\<lparr> submit_disabled := True \<rparr>),
       submit_listener = False, reset_listener = False,
       trace = [(FetchConfig, d), (DisableSubmit, d\<lparr> submit_disabled := True \<rparr>),
                (ShowAlert ''error'' True,
                 showAlert ''error'' True (Some config_pending_text) (d\<lparr> submit_disabled := True \<rparr>))] \<rparr>"
  using assms
  by (auto simp add: on_DOMContentLoaded_def initial_client_def perform_def Let_def)

lemma on_DOMContentLoaded_configured:
  assumes "loadConfig config None = Some base" "base \<noteq> []"
  shows "on_DOMContentLoaded config (initial_client d) =
     \<lparr> API_BASE_URL = Some base, page = d, submit_listener = True, reset_listener = True,
       trace = [(FetchConfig, d)] \<rparr>"
  using assms
  by (simp add: on_DOMContentLoaded_def initial_client_def perform_def Let_def)

lemma no_listener_events:
  assumes "\<not> submit_listener c" "\<not> reset_listener c"
  shows "trace (fold dispatch events c) = trace c
       \<and> \<not> submit_listener (fold dispatch events c)
       \<and> \<not> reset_listener (fold dispatch events c)
       \<and> API_BASE_URL (fold dispatch events c) = API_BASE_URL c
       \<and> submit_disabled (page (fold dispatch events c)) = submit_disabled (page c)
       \<and> success_hidden (page (fold dispatch events c)) = success_hidden (page c)
       \<and> failure_hidden (page (fold dispatch events c)) = failure_hidden (page c)
       \<and> failure_content (page (fold dispatch events c)) = failure_content (page c)"
  using assms
proof (induction events arbitrary: c)
  case Nil
  then show ?case by simp
next
  case (Cons e events)
  have "\<not> submit_listener (dispatch e c)" "\<not> reset_listener (dispatch e c)"
    "trace (dispatch e c) = trace c" "API_BASE_URL (dispatch e c) = API_BASE_URL c"
    "submit_disabled (page (dispatch e c)) = submit_disabled (page c)"
    "success_hidden (page (dispatch e c)) = success_hidden (page c)"
    "failure_hidden (page (dispatch e c)) = failure_hidden (page c)"
    "failure_content (page (dispatch e c)) = failure_content (page c)"
    using Cons.prems by (cases e; simp)+
  with Cons.IH [of "dispatch e c"] show ?case by simp
qed

text \<open>At most one banner: every function that touches the page keeps it.\<close>

lemma banner_simps:
  "at_most_one_banner (showAlert k v t d)"
  "at_most_one_banner (showErrors e d) = at_most_one_banner d"
  "at_most_one_banner (setLoading l d) = at_most_one_banner d"
  "at_most_one_banner (d\<lparr> form_fields := f \<rparr>) = at_most_one_banner d"
  "at_most_one_banner (d\<lparr> submit_disabled := x \<rparr>) = at_most_one_banner d"
  by (simp_all add: at_most_one_banner_def frame)

lemma banners_ok_perform:
  "banners_ok c \<Longrightarrow> at_most_one_banner (g (page c)) \<Longrightarrow> banners_ok (perform a g c)"
  by (simp add: banners_ok_def perform_simps)

lemma banners_ok_on_submit: "banners_ok c \<Longrightarrow> banners_ok (on_submit b outcome c)"
proof (cases "v_ok (validate (form_fields (page c)))")
  case False
  assume "banners_ok c"
  then show ?thesis
    unfolding on_submit_invalid [OF False]
    by (intro banners_ok_perform) (simp_all add: perform_simps banner_simps)
next
  case True
  assume ok: "banners_ok c"
  show ?thesis
  proof (cases "settle outcome")
    case (Inl err)
    from ok show ?thesis
      unfolding on_submit_valid [OF True] Inl sum.case
      by (intro banners_ok_perform) (simp_all add: perform_simps banner_simps)
  next
    case (Inr resp)
    from ok show ?thesis
      unfolding on_submit_valid [OF True] Inr sum.case
      by (intro banners_ok_perform) (simp_all add: perform_simps banner_simps)
  qed
qed

lemma banners_ok_dispatch: "banners_ok c \<Longrightarrow> banners_ok (dispatch e c)"
proof (cases e)
  case (Edit f)
  assume "banners_ok c"
  then show ?thesis using Edit by (simp add: banners_ok_def banner_simps)
next
  case (Submit b outcome)
  assume "banners_ok c"
  then show ?thesis using Submit by (simp add: banners_ok_on_submit)
next
  case ResetClick
  assume ok: "banners_ok c"
  then have pg: "at_most_one_banner (page c)"
    by (simp add: banners_ok_def)
  have "banners_ok (on_reset_click c)"
    unfolding on_reset_click_def Let_def
    by (intro banners_ok_perform) (simp_all add: perform_simps banner_simps ok pg)
  then show ?thesis using ResetClick ok by simp
qed

lemma banners_ok_events: "banners_ok c \<Longrightarrow> banners_ok (fold dispatch events c)"
  by (induction events arbitrary: c) (simp_all add: banners_ok_dispatch)

lemma banners_ok_loaded:
  "at_most_one_banner d \<Longrightarrow> banners_ok (on_DOMContentLoaded config (initial_client d))"
  unfolding on_DOMContentLoaded_def Let_def
  by (auto simp add: banners_ok_def perform_simps banner_simps initial_client_def)

text \<open>Every request goes to the URL built from \<open>API_BASE_URL\<close>, which never changes.\<close>

lemma on_reset_click_keeps:
  "API_BASE_URL (on_reset_click c) = API_BASE_URL c"
  "posts (trace (on_reset_click c)) = posts (trace c)"
  by (simp_all add: on_reset_click_def Let_def perform_simps posts_simps)

lemma on_submit_posts:
  "posts (trace (on_submit b outcome c)) =
     posts (trace c) @
     (if v_ok (validate (form_fields (page c)))
      then [(Post (lead_url (API_BASE_URL c)) (buildPayload b (form_fields (page c))),
             setLoading True
               (showErrors (v_errors (validate (form_fields (page c)))) (cleared (page c))))]
      else [])"
proof (cases "v_ok (validate (form_fields (page c)))")
  case False
  then show ?thesis
    by (simp add: on_submit_invalid perform_simps posts_simps)
next
  case True
  then show ?thesis
    by (cases "settle outcome")
       (simp_all add: on_submit_valid perform_simps posts_simps cleared_def)
qed

lemma dispatch_posts_to:
  "posts_to (lead_url (API_BASE_URL c)) c \<Longrightarrow>
   posts_to (lead_url (API_BASE_URL c)) (dispatch e c) \<and>
   API_BASE_URL (dispatch e c) = API_BASE_URL c"
  by (cases e)
     (simp_all add: posts_to_def on_submit_posts on_submit_keeps on_reset_click_keeps)

lemma events_posts_to:
  "posts_to (lead_url (API_BASE_URL c)) c \<Longrightarrow>
   posts_to (lead_url (API_BASE_URL c)) (fold dispatch events c) \<and>
   API_BASE_URL (fold dispatch events c) = API_BASE_URL c"
proof (induction events arbitrary: c)
  case Nil
  then show ?case by simp
next
  case (Cons e events)
  from dispatch_posts_to [OF Cons.prems, of e]
  have 1: "posts_to (lead_url (API_BASE_URL (dispatch e c))) (dispatch e c)"
    and 2: "API_BASE_URL (dispatch e c) = API_BASE_URL c" by simp_all
  from Cons.IH [OF 1] 2 show ?case by simp
qed

text \<open>Strings that end with a given string, and the regular expression of line 13.\<close>

lemma ends_with_iff: "ends_with s t \<longleftrightarrow> (\<exists>p. s = p @ t)"
proof
  assume "ends_with s t"
  then have "s = take (length s - length t) s @ t"
    by (simp add: ends_with_def) (metis append_take_drop_id)
  then show "\<exists>p. s = p @ t" ..
next
  assume "\<exists>p. s = p @ t"
  then show "ends_with s t" by (auto simp add: ends_with_def)
qed

lemma ends_with_append: "ends_with (s @ t) (p @ t) \<longleftrightarrow> ends_with s p"
  unfolding ends_with_iff by (metis append.assoc append_same_eq)

lemma strip_one_slash_snoc:
  "strip_one_slash (p @ [c]) = (if c = 0x2F then p else p @ [c])"
  by (simp add: strip_one_slash_def ends_with_def)

lemma re_replace_trailing_slash:
  "re_replace trailing_slash_re [] s = strip_one_slash s"
proof (induction s)
  case Nil
  then show ?case by (simp add: strip_one_slash_def ends_with_def)
next
  case (Cons c cs)
  show ?case
  proof (cases cs rule: rev_cases)
    case Nil
    then show ?thesis
      using strip_one_slash_snoc [of "[]" c] by (simp add: trailing_slash_re_def)
  next
    case (snoc p x)
    with Cons.IH have "re_replace trailing_slash_re [] cs = (if x = 0x2F then p else p @ [x])"
      by (simp add: strip_one_slash_snoc)
    moreover have "strip_one_slash (c # cs) = c # (if x = 0x2F then p else p @ [x])"
      using strip_one_slash_snoc [of "c # p" x] snoc by simp
    moreover have "\<not> re_match trailing_slash_re (c # cs)"
      using snoc by (simp add: trailing_slash_re_def)
    ultimately show ?thesis by simp
  qed
qed

lemma single_slash_stripped:
  assumes "\<not> ends_with s (ascii ''//'')"
  shows "\<not> ends_with (strip_one_slash s) [0x2F]"
proof (cases s rule: rev_cases)
  case Nil
  then show ?thesis by (simp add: strip_one_slash_def ends_with_def)
next
  case (snoc p c)
  show ?thesis
  proof (cases "c = 0x2F")
    case False
    with snoc show ?thesis by (simp add: strip_one_slash_snoc ends_with_def)
  next
    case True
    have "\<not> ends_with p [0x2F]"
    proof
      assume "ends_with p [0x2F]"
      then obtain q where "p = q @ [0x2F]" unfolding ends_with_iff by blast
      with snoc True have "s = q @ ascii ''//''" by (simp add: ascii_def)
      with assms show False unfolding ends_with_iff by blast
    qed
    with snoc True show ?thesis by (simp add: strip_one_slash_snoc)
  qed
qed

lemma lead_url_no_double_slash:
  assumes "\<not> ends_with base [0x2F]"
  shows "\<not> ends_with (lead_url (Some base)) (ascii ''//lead'')"
proof -
  have "ascii ''//lead'' = [0x2F] @ ascii ''/lead''" by (simp add: ascii_def)
  then show ?thesis
    using assms by (simp add: lead_url_def ends_with_append del: append.simps)
qed

subsection \<open>The concrete inputs\<close>

lemma email_re_parts:
  assumes "l \<noteq> []" "d \<noteq> []" "t \<noteq> []" "plain l" "plain d" "plain t"
  shows "re_test email_re (l @ [0x40] @ d @ [0x2E] @ t)"
  unfolding email_re_pattern local_domain_tld_def using assms by blast

lemma jane_fields:
  "trim (ascii ''Jane'') = ascii ''Jane''"
  "trim (ascii ''jane@example.com'') = ascii ''jane@example.com''"
  "trim (ascii ''Hello, I am interested in your services!'') =
     ascii ''Hello, I am interested in your services!''"
  by (simp_all add: ascii_def trim_def is_space_def)

lemma jane_lengths:
  "length (ascii ''Jane'') = 4"
  "length (ascii ''Hello, I am interested in your services!'') = 40"
  by (simp_all add: ascii_def)

lemma jane_email: "re_test email_re (ascii ''jane@example.com'')"
proof -
  have split: "ascii ''jane@example.com'' =
      ascii ''jane'' @ [0x40] @ ascii ''example'' @ [0x2E] @ ascii ''com''"
    by (simp add: ascii_def)
  have "plain (ascii ''jane'')" "plain (ascii ''example'')" "plain (ascii ''com'')"
    by (simp_all add: plain_def ascii_def is_space_def)
  moreover have "ascii ''jane'' \<noteq> []" "ascii ''example'' \<noteq> []" "ascii ''com'' \<noteq> []"
    by (simp_all add: ascii_def)
  ultimately show ?thesis
    unfolding split by (intro email_re_parts)
qed

lemma jane_ok: "v_ok (validate jane_form)"
  by (simp add: validate_ok jane_form_def jane_fields jane_lengths jane_email)

lemma example_url:
  "trim (ascii ''https://api.example.com'') = ascii ''https://api.example.com''"
  "trim (ascii '' https://api.example.com/ '') = ascii ''https://api.example.com/''"
  "trim (ascii ''https://api.example.com//'') = ascii ''https://api.example.com//''"
  by (simp_all add: ascii_def trim_def is_space_def)

lemma example_base:
  "strip_one_slash (ascii ''https://api.example.com'') = ascii ''https://api.example.com''"
  "strip_one_slash (ascii ''https://api.example.com/'') = ascii ''https://api.example.com''"
  "strip_one_slash (ascii ''https://api.example.com//'') = ascii ''https://api.example.com/''"
  by (simp_all add: ascii_def strip_one_slash_def ends_with_def)

lemma config_response_loaded:
  assumes "trim u \<noteq> []" "strip_one_slash (trim u) \<noteq> []"
  shows "on_DOMContentLoaded (Inr (config_response u)) (initial_client d) =
     \<lparr> API_BASE_URL = Some (strip_one_slash (trim u)), page = d,
       submit_listener = True, reset_listener = True, trace = [(FetchConfig, d)] \<rparr>"
proof -
  have "loadConfig (Inr (config_response u)) None = Some (strip_one_slash (trim u))"
    using assms(1)
    by (simp add: loadConfig_def config_response_def res_ok_def re_replace_trailing_slash)
  from on_DOMContentLoaded_configured [OF this assms(2)] show ?thesis .
qed

lemma ready_client_eq:
  "ready_client f =
     \<lparr> API_BASE_URL = Some (ascii ''https://api.example.com''), page = loaded_page f,
       submit_listener = True, reset_listener = True, trace = [(FetchConfig, loaded_page f)] \<rparr>"
proof -
  have "ascii ''https://api.example.com'' \<noteq> []" by (simp add: ascii_def)
  then show ?thesis
    using config_response_loaded [of "ascii ''https://api.example.com''" "loaded_page f"]
    by (simp add: ready_client_def run_page_def example_url example_base)
qed

lemma ready_client_simps:
  "API_BASE_URL (ready_client f) = Some (ascii ''https://api.example.com'')"
  "page (ready_client f) = loaded_page f"
  "submit_listener (ready_client f)"
  "trace (ready_client f) = [(FetchConfig, loaded_page f)]"
  by (simp_all add: ready_client_eq)

lemma loaded_page_form: "form_fields (loaded_page f) = f"
  by (simp add: loaded_page_def)

lemma run_page_ready:
  "run_page (Inr (config_response (ascii ''https://api.example.com''))) (loaded_page f) events =
     fold dispatch events (ready_client f)"
  by (simp add: run_page_def ready_client_def)

lemma example_bodies:
  "read_body accepted_response = Inr (JObj [(ascii ''id'', JStr (ascii ''lead-1''))])"
  "read_body rejected_response = Inr (JObj [(ascii ''message'', JStr (ascii ''Invalid request''))])"
  "read_body bare_500_response = Inr (JStr (ascii ''Internal Server Error''))"
  by (simp_all add: read_body_def indicates_json_def accepted_response_def
      rejected_response_def bare_500_response_def ascii_def)

lemma example_status:
  "res_ok accepted_response" "\<not> res_ok rejected_response" "\<not> res_ok bare_500_response"
  "\<not> res_ok not_found_response"
  by (simp_all add: res_ok_def accepted_response_def rejected_response_def
      bare_500_response_def not_found_response_def)

lemma blank_invalid: "\<not> v_ok (validate blank_form)"
  by (simp add: validate_ok blank_form_def trim_def)


lemma example_settled:
  "settle (Inl AbortError) = Inl AbortError"
  "settle (Inr accepted_response) = Inr (JObj [(ascii ''id'', JStr (ascii ''lead-1''))])"
proof -
  show "settle (Inl AbortError) = Inl AbortError"
    by (simp add: settle_def)
  show "settle (Inr accepted_response) = Inr (JObj [(ascii ''id'', JStr (ascii ''lead-1''))])"
    using settle_ok [OF example_status(1)] by (simp add: example_bodies)
qed

lemma example_lead_url:
  "lead_url (Some (ascii ''https://api.example.com'')) = ascii ''https://api.example.com/lead''"
  by (simp add: lead_url_def ascii_def)

lemma jane_ready: "v_ok (validate (form_fields (page (ready_client jane_form))))"
  by (simp add: ready_client_simps loaded_page_form jane_ok)






lemma one_valid_submit:
  assumes "trim u \<noteq> []" "strip_one_slash (trim u) \<noteq> []" "v_ok (validate f)"
  shows "map post_url (posts (trace (run_page (Inr (config_response u)) (loaded_page f)
           [Submit b outcome]))) = [strip_one_slash (trim u) @ ascii ''/lead'']"
  using assms(3)
  by (simp add: run_page_def config_response_loaded [OF assms(1,2)] on_submit_posts
      posts_simps lead_url_def loaded_page_def)

lemma jane_valid:
  "validate_lead (rq_body jane_request) =
     Some \<lparr> d_name = ascii ''Jane'', d_email = ascii ''jane@example.com'',
            d_message = ascii ''Hello, I am interested in your services!'' \<rparr>"
proof -
  have keys: "ascii ''name'' \<noteq> ascii ''email''" "ascii ''name'' \<noteq> ascii ''message''"
    "ascii ''email'' \<noteq> ascii ''message''" "ascii ''email'' \<noteq> ascii ''name''"
    "ascii ''message'' \<noteq> ascii ''name''" "ascii ''message'' \<noteq> ascii ''email''"
    by (simp_all add: ascii_def)
  show ?thesis
    by (simp add: validate_lead_def jane_request_def str_field_def keys jane_fields
        jane_lengths jane_email)
qed

section \<open>The claims\<close>

text \<open>
  Claim C1. \<open>validate\<close> flags exactly the failing fields: the keys of its \<open>errors\<close> object
  are \<open>name\<close> if and only if the trimmed name has fewer than 2 code units, \<open>email\<close> if and
  only if the trimmed email does not match the permissive local@domain.tld pattern,
  \<open>message\<close> if and only if the trimmed message has fewer than 10 code units, and \<open>consent\<close>
  if and only if the box is unchecked, in this order and each decided by its own field;
  and \<open>ok\<close> holds if and only if no field is flagged.
\<close>

theorem validate_flags_exactly_the_failing_fields:
  "map fst (v_errors (validate f)) =
     (if length (trim (name_value f)) < 2 then [''name''] else []) @
     (if \<not> local_domain_tld (trim (email_value f)) then [''email''] else []) @
     (if length (trim (message_value f)) < 10 then [''message''] else []) @
     (if \<not> consent_checked f then [''consent''] else [])
   \<and> (''name'' \<in> set (map fst (v_errors (validate f))) \<longleftrightarrow> length (trim (name_value f)) < 2)
   \<and> (''email'' \<in> set (map fst (v_errors (validate f))) \<longleftrightarrow>
        \<not> local_domain_tld (trim (email_value f)))
   \<and> (''message'' \<in> set (map fst (v_errors (validate f))) \<longleftrightarrow>
        length (trim (message_value f)) < 10)
   \<and> (''consent'' \<in> set (map fst (v_errors (validate f))) \<longleftrightarrow> \<not> consent_checked f)
   \<and> (v_ok (validate f) \<longleftrightarrow> map fst (v_errors (validate f)) = [])"
  by (simp add: validate_errors validate_ok email_re_pattern)

text \<open>
  The scenario's form passes, and the same form with the name \<open>J\<close> and the box unchecked
  is flagged on exactly these two fields.
\<close>

theorem validate_flags_exactly_the_failing_fields_witness:
  "map fst (v_errors (validate jane_form)) = [] \<and> v_ok (validate jane_form) \<and>
   local_domain_tld (trim (email_value jane_form)) \<and>
   map fst (v_errors (validate (jane_form\<lparr> name_value := ascii '' J '', consent_checked := False \<rparr>))) =
     [''name'', ''consent'']"
proof -
  have short: "length (trim (ascii '' J '')) < 2"
    by (simp add: ascii_def trim_def is_space_def)
  let ?g = "jane_form\<lparr> name_value := ascii '' J '', consent_checked := False \<rparr>"
  have fields: "2 \<le> length (trim (name_value jane_form))"
    "re_test email_re (trim (email_value jane_form))"
    "10 \<le> length (trim (message_value jane_form))" "consent_checked jane_form"
    using jane_ok by (simp_all add: validate_ok)
  show ?thesis
    using validate_flags_exactly_the_failing_fields [of jane_form]
      validate_flags_exactly_the_failing_fields [of ?g] jane_ok short fields
    by (simp add: email_re_pattern)
qed

text \<open>
  Claim C2. When the form fails one of the four rules, the submit listener clears the
  banners, validates, writes the field errors into the existing error slots and returns:
  it adds these four steps and no other, so it neither enters the loading state nor sends
  a request, and nothing of this attempt can reach the intake endpoint and be persisted.
\<close>

theorem invalid_submission_sends_nothing:
  assumes "length (trim (name_value (form_fields (page c)))) < 2 \<or>
           \<not> local_domain_tld (trim (email_value (form_fields (page c)))) \<or>
           length (trim (message_value (form_fields (page c)))) < 10 \<or>
           \<not> consent_checked (form_fields (page c))"
  shows "map fst (new_steps c (on_submit b outcome c)) =
           [ShowAlert ''success'' False, ShowAlert ''error'' False, Validate, ShowErrors]
         \<and> posts (new_steps c (on_submit b outcome c)) = []
         \<and> trace (on_submit b outcome c) = trace c @ new_steps c (on_submit b outcome c)
         \<and> submit_loading (page (on_submit b outcome c)) = submit_loading (page c)
         \<and> submit_disabled (page (on_submit b outcome c)) = submit_disabled (page c)
         \<and> error_slots (page (on_submit b outcome c)) =
             error_slots (showErrors (v_errors (validate (form_fields (page c)))) (page c))
         \<and> (\<forall>k \<in> {''name'', ''email'', ''message'', ''consent''}.
              map_of (error_slots (page c)) k \<noteq> None \<longrightarrow>
              map_of (error_slots (page (on_submit b outcome c))) k =
                Some (case map_of (v_errors (validate (form_fields (page c)))) k of
                        None \<Rightarrow> [] | Some m \<Rightarrow> m))"
proof -
  from assms have bad: "\<not> v_ok (validate (form_fields (page c)))"
    by (auto simp add: validate_ok email_re_pattern)
  have slots: "error_slots (page (on_submit b outcome c)) =
      error_slots (showErrors (v_errors (validate (form_fields (page c)))) (page c))"
    by (simp add: on_submit_invalid [OF bad] perform_simps showErrors_def showAlert_frame)
  have shown: "\<forall>k \<in> {''name'', ''email'', ''message'', ''consent''}.
      map_of (error_slots (page c)) k \<noteq> None \<longrightarrow>
      map_of (error_slots (page (on_submit b outcome c))) k =
        Some (case map_of (v_errors (validate (form_fields (page c)))) k of
                None \<Rightarrow> [] | Some m \<Rightarrow> m)"
    unfolding slots using showErrors_slot by blast
  have steps: "map fst (new_steps c (on_submit b outcome c)) =
      [ShowAlert ''success'' False, ShowAlert ''error'' False, Validate, ShowErrors]"
    by (simp add: on_submit_invalid [OF bad] new_steps_perform new_steps_same perform_simps)
  have none: "posts (new_steps c (on_submit b outcome c)) = []"
    by (simp add: on_submit_invalid [OF bad] new_steps_perform new_steps_same perform_simps
        posts_simps)
  have same: "submit_loading (page (on_submit b outcome c)) = submit_loading (page c)"
    "submit_disabled (page (on_submit b outcome c)) = submit_disabled (page c)"
    by (simp_all add: on_submit_invalid [OF bad] perform_simps frame)
  from steps none same slots shown on_submit_trace show ?thesis by blast
qed

text \<open>
  A blank form on a configured page: four steps, no request, the name slot filled.
\<close>

theorem invalid_submission_sends_nothing_witness:
  "length (trim (name_value (form_fields (page (ready_client blank_form))))) < 2
   \<and> map fst (new_steps (ready_client blank_form)
        (on_submit linkedin_browser (Inr accepted_response) (ready_client blank_form))) =
       [ShowAlert ''success'' False, ShowAlert ''error'' False, Validate, ShowErrors]
   \<and> posts (trace (on_submit linkedin_browser (Inr accepted_response) (ready_client blank_form))) = []
   \<and> \<not> submit_loading (page (on_submit linkedin_browser (Inr accepted_response)
          (ready_client blank_form)))
   \<and> map_of (error_slots (page (on_submit linkedin_browser (Inr accepted_response)
        (ready_client blank_form)))) ''name'' = Some (ascii ''Please enter your full name.'')"
proof -
  let ?c = "ready_client blank_form"
  have short: "length (trim (name_value (form_fields (page ?c)))) < 2"
    by (simp add: ready_client_simps loaded_page_form blank_form_def trim_def)
  then have hyp: "length (trim (name_value (form_fields (page ?c)))) < 2 \<or>
      \<not> local_domain_tld (trim (email_value (form_fields (page ?c)))) \<or>
      length (trim (message_value (form_fields (page ?c)))) < 10 \<or>
      \<not> consent_checked (form_fields (page ?c))" by blast
  have slot: "map_of (error_slots (page ?c)) ''name'' \<noteq> None"
    by (simp add: ready_client_simps loaded_page_def)
  have flagged: "map_of (v_errors (validate (form_fields (page ?c)))) ''name'' =
      Some (ascii ''Please enter your full name.'')"
    using short by (simp add: validate_errors)
  have before: "posts (trace ?c) = []" "\<not> submit_loading (page ?c)"
    by (simp_all add: ready_client_simps posts_simps loaded_page_def)
  note run = invalid_submission_sends_nothing [OF hyp, of linkedin_browser "Inr accepted_response"]
  from run have steps: "map fst (new_steps ?c (on_submit linkedin_browser (Inr accepted_response) ?c)) =
      [ShowAlert ''success'' False, ShowAlert ''error'' False, Validate, ShowErrors]"
    by blast
  from run have sent: "posts (new_steps ?c (on_submit linkedin_browser (Inr accepted_response) ?c)) = []"
    and grown: "trace (on_submit linkedin_browser (Inr accepted_response) ?c) =
      trace ?c @ new_steps ?c (on_submit linkedin_browser (Inr accepted_response) ?c)"
    and loading: "submit_loading (page (on_submit linkedin_browser (Inr accepted_response) ?c)) =
      submit_loading (page ?c)"
    by blast+
  have unsent: "posts (trace (on_submit linkedin_browser (Inr accepted_response) ?c)) = []"
    unfolding grown posts_simps(2) sent using before(1) by simp
  from run have "\<forall>k \<in> {''name'', ''email'', ''message'', ''consent''}.
      map_of (error_slots (page ?c)) k \<noteq> None \<longrightarrow>
      map_of (error_slots (page (on_submit linkedin_browser (Inr accepted_response) ?c))) k =
        Some (case map_of (v_errors (validate (form_fields (page ?c)))) k of
                None \<Rightarrow> [] | Some m \<Rightarrow> m)"
    by blast
  then have "map_of (error_slots (page ?c)) ''name'' \<noteq> None \<longrightarrow>
      map_of (error_slots (page (on_submit linkedin_browser (Inr accepted_response) ?c))) ''name'' =
        Some (case map_of (v_errors (validate (form_fields (page ?c)))) ''name'' of
                None \<Rightarrow> [] | Some m \<Rightarrow> m)"
    by blast
  with slot flagged
  have shown: "map_of (error_slots (page (on_submit linkedin_browser (Inr accepted_response) ?c)))
      ''name'' = Some (ascii ''Please enter your full name.'')"
    by simp
  from short steps unsent loading before(2) shown show ?thesis by blast
qed

text \<open>
  Claim C3. The status of the handler's response depends on the validation and on the
  store write only: changing the outcome of the two notifications never changes it. When
  the store write fails the answer is 500, nothing is stored and no notification is
  attempted; when it succeeds the answer is 200 and both notifications are attempted,
  each failure being logged.
\<close>

theorem handler_status_ignores_notifications:
  "hr_status (lead_handler cfg sv rq) =
     (if validate_lead (rq_body rq) = None then 400 else if sv_store_ok sv then 200 else 500)
   \<and> hr_status (lead_handler cfg (sv\<lparr> sv_confirmation_ok := a, sv_owner_alert_ok := b \<rparr>) rq) =
       hr_status (lead_handler cfg sv rq)
   \<and> (validate_lead (rq_body rq) \<noteq> None \<and> \<not> sv_store_ok sv \<longrightarrow>
        hr_status (lead_handler cfg sv rq) = 500 \<and>
        hr_notified (lead_handler cfg sv rq) = [] \<and> hr_stored (lead_handler cfg sv rq) = [])
   \<and> (validate_lead (rq_body rq) \<noteq> None \<and> sv_store_ok sv \<longrightarrow>
        hr_status (lead_handler cfg sv rq) = 200 \<and>
        length (hr_stored (lead_handler cfg sv rq)) = 1 \<and>
        length (hr_notified (lead_handler cfg sv rq)) = 2 \<and>
        length (hr_logged (lead_handler cfg sv rq)) =
          (if sv_confirmation_ok sv then 0 else 1) + (if sv_owner_alert_ok sv then 0 else 1))"
  by (auto simp add: lead_handler_def Let_def split: option.splits)

text \<open>
  The scenario's request with the store unreachable, and with both emails failing.
\<close>

theorem handler_status_ignores_notifications_witness:
  "validate_lead (rq_body jane_request) \<noteq> None \<and>
   hr_status (lead_handler (leads_config None) (services_at False True True) jane_request) = 500 \<and>
   hr_notified (lead_handler (leads_config None) (services_at False True True) jane_request) = [] \<and>
   hr_status (lead_handler (leads_config None) (services_at True False False) jane_request) = 200 \<and>
   length (hr_logged (lead_handler (leads_config None) (services_at True False False) jane_request)) = 2"
  using handler_status_ignores_notifications
          [of "leads_config None" "services_at False True True" jane_request]
        handler_status_ignores_notifications
          [of "leads_config None" "services_at True False False" jane_request]
  by (simp add: jane_valid services_at_def)





text \<open>
  Claim C6, as amended. On a success status \<open>postJSON\<close> returns the body, parsed as JSON
  when the content type indicates JSON and read as text otherwise. On any other status,
  once the body has been read, it throws an \<open>Error\<close> made from the \<open>message\<close> field of the
  parsed body when that is an object with a truthy one, otherwise from the status text,
  and from \<open>Request failed\<close> when the status text is empty.
\<close>

theorem postJSON_reads_the_body_and_reports_failure:
  "(res_ok res \<longrightarrow> snd (postJSON url body (Inr res) c) = read_body res)
   \<and> (\<not> res_ok res \<and> read_body res = Inr v \<longrightarrow>
        snd (postJSON url body (Inr res) c) =
          Inl (Error (case server_message v of
                        Some m \<Rightarrow> if truthy m then m
                                  else if res_statusText res \<noteq> [] then JStr (res_statusText res)
                                  else JStr (ascii ''Request failed'')
                      | None \<Rightarrow> if res_statusText res \<noteq> [] then JStr (res_statusText res)
                                else JStr (ascii ''Request failed''))))"
  by (simp add: postJSON_def settle_ok settle_failed)

text \<open>
  An accepted submission, and a 400 whose body carries a message.
\<close>

theorem postJSON_reads_the_body_and_reports_failure_witness:
  "res_ok accepted_response
   \<and> snd (postJSON (ascii ''https://api.example.com/lead'')
        (buildPayload linkedin_browser jane_form) (Inr accepted_response)
        (ready_client jane_form)) = Inr (JObj [(ascii ''id'', JStr (ascii ''lead-1''))])
   \<and> \<not> res_ok rejected_response
   \<and> snd (postJSON (ascii ''https://api.example.com/lead'')
        (buildPayload linkedin_browser jane_form) (Inr rejected_response)
        (ready_client jane_form)) = Inl (Error (JStr (ascii ''Invalid request'')))"
proof -
  have msg: "server_message (JObj [(ascii ''message'', JStr (ascii ''Invalid request''))]) =
      Some (JStr (ascii ''Invalid request''))"
    by (simp add: server_message_def)
  have given: "ascii ''Invalid request'' \<noteq> []"
    by (simp add: ascii_def)
  from postJSON_reads_the_body_and_reports_failure
      [of accepted_response "ascii ''https://api.example.com/lead''"
        "buildPayload linkedin_browser jane_form" "ready_client jane_form"]
    postJSON_reads_the_body_and_reports_failure
      [of rejected_response "ascii ''https://api.example.com/lead''"
        "buildPayload linkedin_browser jane_form" "ready_client jane_form"
        "JObj [(ascii ''message'', JStr (ascii ''Invalid request''))]"]
  show ?thesis
    by (simp add: example_status example_bodies msg given)
qed

text \<open>
  Claim C6 as stated fails for a 500 with a plain-text body and no reason phrase (as over
  HTTP/2): the message is \<open>Request failed\<close>, which is neither the status text of the
  response nor the standard phrase for 500.
\<close>

theorem empty_reason_phrase_counterexample:
  "\<not> res_ok bare_500_response
   \<and> read_body bare_500_response = Inr (JStr (ascii ''Internal Server Error''))
   \<and> server_message (JStr (ascii ''Internal Server Error'')) = None
   \<and> res_statusText bare_500_response = []
   \<and> snd (postJSON (ascii ''https://api.example.com/lead'')
        (buildPayload linkedin_browser jane_form) (Inr bare_500_response)
        (ready_client jane_form)) = Inl (Error (JStr (ascii ''Request failed'')))
   \<and> ascii ''Request failed'' \<noteq> res_statusText bare_500_response
   \<and> ascii ''Request failed'' \<noteq> ascii ''Internal Server Error''"
proof -
  have reason: "res_statusText bare_500_response = []"
    by (simp add: bare_500_response_def)
  have none: "server_message (JStr (ascii ''Internal Server Error'')) = None"
    by (simp add: server_message_def)
  have thrown: "settle (Inr bare_500_response) = Inl (Error (JStr (ascii ''Request failed'')))"
    using settle_failed [OF example_status(3) example_bodies(3)] by (simp add: none reason)
  have differs: "ascii ''Request failed'' \<noteq> res_statusText bare_500_response"
    "ascii ''Request failed'' \<noteq> ascii ''Internal Server Error''"
    by (simp_all add: reason ascii_def)
  from example_status(3) example_bodies(3) none reason thrown differs show ?thesis
    by (simp add: postJSON_def)
qed

text \<open>
  Claim C7. For a form that passes validation the listener sets the loading state, then
  sends the one request, with the submit control disabled and marked \<open>loading\<close> at that
  moment; whatever the request settles to (a response, a thrown error, an abort after the
  timeout) the last step is \<open>setLoading(false)\<close>, and the listener ends with the control
  enabled and unmarked.
\<close>

theorem submit_control_released_on_every_path:
  assumes "v_ok (validate (form_fields (page c)))"
  shows "map fst (new_steps c (on_submit b outcome c)) =
           [ShowAlert ''success'' False, ShowAlert ''error'' False, Validate, ShowErrors,
            SetLoading True,
            Post (lead_url (API_BASE_URL c)) (buildPayload b (form_fields (page c)))] @
           (case settle outcome of
              Inl err \<Rightarrow> [ShowAlert ''error'' True]
            | Inr resp \<Rightarrow> [ShowAlert ''success'' True, FormReset]) @
           [SetLoading False]
         \<and> map (\<lambda>s. (submit_disabled (snd s), submit_loading (snd s)))
               (posts (new_steps c (on_submit b outcome c))) = [(True, True)]
         \<and> \<not> submit_disabled (page (on_submit b outcome c))
         \<and> \<not> submit_loading (page (on_submit b outcome c))"
proof (cases "settle outcome")
  case (Inl err)
  with assms show ?thesis
    by (simp add: on_submit_valid new_steps_perform new_steps_same perform_simps posts_simps
        frame)
next
  case (Inr resp)
  with assms show ?thesis
    by (simp add: on_submit_valid new_steps_perform new_steps_same perform_simps posts_simps
        frame)
qed

text \<open>
  The scenario's form when the request is aborted, accepted, and answered with 500.
\<close>

theorem submit_control_released_on_every_path_witness:
  "v_ok (validate (form_fields (page (ready_client jane_form))))
   \<and> map fst (new_steps (ready_client jane_form)
        (on_submit linkedin_browser (Inl AbortError) (ready_client jane_form))) =
       [ShowAlert ''success'' False, ShowAlert ''error'' False, Validate, ShowErrors,
        SetLoading True,
        Post (ascii ''https://api.example.com/lead'') (buildPayload linkedin_browser jane_form),
        ShowAlert ''error'' True, SetLoading False]
   \<and> \<not> submit_disabled (page (on_submit linkedin_browser (Inl AbortError)
          (ready_client jane_form)))
   \<and> \<not> submit_disabled (page (on_submit linkedin_browser (Inr accepted_response)
          (ready_client jane_form)))
   \<and> \<not> submit_disabled (page (on_submit linkedin_browser (Inr bare_500_response)
          (ready_client jane_form)))"
proof -
  from submit_control_released_on_every_path [OF jane_ready, of linkedin_browser "Inl AbortError"]
    submit_control_released_on_every_path [OF jane_ready, of linkedin_browser "Inr accepted_response"]
    submit_control_released_on_every_path [OF jane_ready, of linkedin_browser "Inr bare_500_response"]
    jane_ready
  show ?thesis
    by (simp add: example_lead_url example_settled ready_client_simps loaded_page_form)
qed

text \<open>
  Claim C8, as amended. On a page loaded with at most one banner visible, at most one of
  the two banners is visible after every step of app.js and at the end of every run; and
  the submit listener starts with the two calls that hide both banners, so that both are
  hidden when validation runs.
\<close>

theorem at_most_one_banner_is_visible:
  assumes "at_most_one_banner d"
  shows "list_all (\<lambda>s. at_most_one_banner (snd s)) (trace (run_page config d events))
       \<and> at_most_one_banner (page (run_page config d events))
       \<and> take 3 (new_steps c (on_submit b outcome c)) =
           [(ShowAlert ''success'' False, showAlert ''success'' False None (page c)),
            (ShowAlert ''error'' False, cleared (page c)),
            (Validate, cleared (page c))]
       \<and> success_hidden (cleared (page c)) \<and> failure_hidden (cleared (page c))"
proof -
  have "banners_ok (run_page config d events)"
    unfolding run_page_def by (intro banners_ok_events banners_ok_loaded assms)
  then have inv: "list_all (\<lambda>s. at_most_one_banner (snd s)) (trace (run_page config d events))"
    "at_most_one_banner (page (run_page config d events))"
    by (simp_all add: banners_ok_def)
  have start: "take 3 (new_steps c (on_submit b outcome c)) =
      [(ShowAlert ''success'' False, showAlert ''success'' False None (page c)),
       (ShowAlert ''error'' False, cleared (page c)),
       (Validate, cleared (page c))]"
  proof (cases "v_ok (validate (form_fields (page c)))")
    case False
    then show ?thesis
      by (simp add: on_submit_invalid new_steps_perform new_steps_same perform_simps cleared_def)
  next
    case True
    then show ?thesis
      by (cases "settle outcome")
         (simp_all add: on_submit_valid new_steps_perform new_steps_same perform_simps
            cleared_def)
  qed
  have hidden: "success_hidden (cleared (page c))" "failure_hidden (cleared (page c))"
    by (simp_all add: cleared_def showAlert_hidden)
  from inv start hidden show ?thesis by blast
qed

text \<open>
  A page whose configuration could not be fetched shows the failure banner only.
\<close>

theorem at_most_one_banner_is_visible_witness:
  "at_most_one_banner (loaded_page jane_form)
   \<and> at_most_one_banner
       (page (run_page (Inl TypeError) (loaded_page jane_form)
                [Submit linkedin_browser (Inr accepted_response), ResetClick]))
   \<and> \<not> failure_hidden (page (run_page (Inl TypeError) (loaded_page jane_form) []))
   \<and> success_hidden (page (run_page (Inl TypeError) (loaded_page jane_form) []))"
proof -
  have d: "at_most_one_banner (loaded_page jane_form)"
    by (simp add: at_most_one_banner_def loaded_page_def)
  have "loadConfig (Inl TypeError) None = None"
    by (simp add: loadConfig_def)
  then have "page (run_page (Inl TypeError) (loaded_page jane_form) []) =
      showAlert ''error'' True (Some config_pending_text)
        ((loaded_page jane_form)\<lparr> submit_disabled := True \<rparr>)"
    by (simp add: run_page_def on_DOMContentLoaded_unconfigured)
  then have shown: "\<not> failure_hidden (page (run_page (Inl TypeError) (loaded_page jane_form) []))"
    "success_hidden (page (run_page (Inl TypeError) (loaded_page jane_form) []))"
    by (simp_all add: showAlert_hidden)
  from at_most_one_banner_is_visible [OF d, of "Inl TypeError"
      "[Submit linkedin_browser (Inr accepted_response), ResetClick]"] d shown
  show ?thesis by blast
qed

text \<open>
  Claim C8 as stated fails after a submission of a blank form on a configured page: both
  banners are hidden, so it is not the case that exactly one is visible.
\<close>

theorem no_banner_after_clearing_counterexample:
  "\<not> exactly_one_banner
       (page (run_page (Inr (config_response (ascii ''https://api.example.com'')))
                (loaded_page blank_form) [Submit linkedin_browser (Inl TypeError)]))
   \<and> success_hidden
       (page (run_page (Inr (config_response (ascii ''https://api.example.com'')))
                (loaded_page blank_form) [Submit linkedin_browser (Inl TypeError)]))
   \<and> failure_hidden
       (page (run_page (Inr (config_response (ascii ''https://api.example.com'')))
                (loaded_page blank_form) [Submit linkedin_browser (Inl TypeError)]))"
proof -
  have run: "run_page (Inr (config_response (ascii ''https://api.example.com'')))
      (loaded_page blank_form) [Submit linkedin_browser (Inl TypeError)] =
      on_submit linkedin_browser (Inl TypeError) (ready_client blank_form)"
    by (simp add: run_page_ready ready_client_simps)
  have bad: "\<not> v_ok (validate (form_fields (page (ready_client blank_form))))"
    by (simp add: ready_client_simps loaded_page_form blank_invalid)
  show ?thesis
    unfolding run on_submit_invalid [OF bad]
    by (simp add: exactly_one_banner_def perform_simps frame)
qed

text \<open>
  Claim C9. When the configuration cannot be fetched, is not found, does not parse, or
  holds no non-empty string \<open>API_BASE_URL\<close>, then after any sequence of events the submit
  control is disabled, the failure banner shows the configuration-pending text, no submit
  listener is registered and no request has been sent to the intake endpoint.
\<close>

theorem unconfigured_page_is_disabled:
  assumes "\<not> has_base_url config"
  shows "submit_disabled (page (run_page config d events))
       \<and> \<not> failure_hidden (page (run_page config d events))
       \<and> success_hidden (page (run_page config d events))
       \<and> failure_content (page (run_page config d events)) = config_pending_text
       \<and> \<not> submit_listener (run_page config d events)
       \<and> posts (trace (run_page config d events)) = []"
proof -
  have none: "loadConfig config None = None"
    using assms by (rule has_base_url_loadConfig)
  let ?c = "on_DOMContentLoaded config (initial_client d)"
  have loaded: "?c =
     \<lparr> API_BASE_URL = loadConfig config None,
       page = showAlert ''error'' True (Some config_pending_text) (d\<lparr> submit_disabled := True \<rparr>),
       submit_listener = False, reset_listener = False,
       trace = [(FetchConfig, d), (DisableSubmit, d\<lparr> submit_disabled := True \<rparr>),
                (ShowAlert ''error'' True,
                 showAlert ''error'' True (Some config_pending_text) (d\<lparr> submit_disabled := True \<rparr>))] \<rparr>"
    using none by (intro on_DOMContentLoaded_unconfigured) simp
  have text_ne: "config_pending_text \<noteq> []"
    by (simp add: config_pending_text_def)
  have c: "\<not> submit_listener ?c" "\<not> reset_listener ?c"
    "submit_disabled (page ?c)" "\<not> failure_hidden (page ?c)" "success_hidden (page ?c)"
    "failure_content (page ?c) = config_pending_text" "posts (trace ?c) = []"
    unfolding loaded by (simp_all add: frame showAlert_content text_ne posts_simps)
  from no_listener_events [OF c(1,2), of events] c show ?thesis
    unfolding run_page_def by simp
qed

text \<open>
  A configuration answered with 404, then a filled form and a submit event.
\<close>

theorem unconfigured_page_is_disabled_witness:
  "\<not> has_base_url (Inr not_found_response)
   \<and> submit_disabled (page (run_page (Inr not_found_response) (loaded_page blank_form)
        [Edit jane_form, Submit linkedin_browser (Inr accepted_response)]))
   \<and> failure_content (page (run_page (Inr not_found_response) (loaded_page blank_form)
        [Edit jane_form, Submit linkedin_browser (Inr accepted_response)])) = config_pending_text
   \<and> posts (trace (run_page (Inr not_found_response) (loaded_page blank_form)
        [Edit jane_form, Submit linkedin_browser (Inr accepted_response)])) = []"
proof -
  have missing: "\<not> has_base_url (Inr not_found_response)"
    by (simp add: has_base_url_def example_status)
  from unconfigured_page_is_disabled [OF missing, of "loaded_page blank_form"
      "[Edit jane_form, Submit linkedin_browser (Inr accepted_response)]"] missing
  show ?thesis by blast
qed

text \<open>
  Claim C10, as amended. For a configuration whose \<open>API_BASE_URL\<close> is a string that is
  not blank, the stored base is the trimmed string without one trailing slash, every
  request goes to that base followed by \<open>/lead\<close>, and no request URL ends with \<open>//lead\<close>
  provided the trimmed string does not end with two slashes.
\<close>

theorem requests_go_to_the_normalized_base:
  assumes "config = Inr res" "res_ok res" "res_json res = Inr (JObj kvs)"
    "map_of kvs (ascii ''API_BASE_URL'') = Some (JStr u)" "trim u \<noteq> []"
  shows "API_BASE_URL (run_page config d events) = Some (strip_one_slash (trim u))
       \<and> list_all (\<lambda>s. post_url s = strip_one_slash (trim u) @ ascii ''/lead'')
           (posts (trace (run_page config d events)))
       \<and> (\<not> ends_with (trim u) (ascii ''//'') \<longrightarrow>
            list_all (\<lambda>s. \<not> ends_with (post_url s) (ascii ''//lead''))
              (posts (trace (run_page config d events))))"
proof -
  let ?base = "strip_one_slash (trim u)"
  let ?c = "on_DOMContentLoaded config (initial_client d)"
  have stored: "loadConfig config None = Some ?base"
    using loadConfig_document [OF assms] by (simp add: re_replace_trailing_slash)
  have c: "API_BASE_URL ?c = Some ?base \<and> posts (trace ?c) = []"
  proof (cases "?base = []")
    case True
    with stored have "loadConfig config None = None \<or> loadConfig config None = Some []" by simp
    from on_DOMContentLoaded_unconfigured [OF this] stored show ?thesis
      by (simp add: posts_simps)
  next
    case False
    from on_DOMContentLoaded_configured [OF stored False] show ?thesis
      by (simp add: posts_simps)
  qed
  then have "posts_to (lead_url (API_BASE_URL ?c)) ?c"
    by (simp add: posts_to_def)
  from events_posts_to [OF this, of events] c
  have api: "API_BASE_URL (run_page config d events) = Some ?base"
    and to: "posts_to (lead_url (Some ?base)) (run_page config d events)"
    by (simp_all add: run_page_def)
  from to have urls: "list_all (\<lambda>s. post_url s = ?base @ ascii ''/lead'')
      (posts (trace (run_page config d events)))"
    by (simp add: posts_to_def lead_url_def)
  have clean: "list_all (\<lambda>s. \<not> ends_with (post_url s) (ascii ''//lead''))
      (posts (trace (run_page config d events)))"
    if single: "\<not> ends_with (trim u) (ascii ''//'')"
  proof -
    from single have "\<not> ends_with (lead_url (Some ?base)) (ascii ''//lead'')"
      by (intro lead_url_no_double_slash single_slash_stripped)
    with to show ?thesis
      unfolding posts_to_def list_all_iff by auto
  qed
  from api urls clean show ?thesis by blast
qed

text \<open>
  A base URL written with surrounding spaces and one trailing slash.
\<close>

theorem requests_go_to_the_normalized_base_witness:
  "API_BASE_URL (run_page (Inr (config_response (ascii '' https://api.example.com/ '')))
      (loaded_page jane_form) [Submit linkedin_browser (Inr accepted_response)]) =
     Some (ascii ''https://api.example.com'')
   \<and> map post_url (posts (trace (run_page (Inr (config_response (ascii '' https://api.example.com/ '')))
        (loaded_page jane_form) [Submit linkedin_browser (Inr accepted_response)]))) =
       [ascii ''https://api.example.com/lead'']
   \<and> list_all (\<lambda>s. \<not> ends_with (post_url s) (ascii ''//lead''))
        (posts (trace (run_page (Inr (config_response (ascii '' https://api.example.com/ '')))
           (loaded_page jane_form) [Submit linkedin_browser (Inr accepted_response)])))"
proof -
  let ?u = "ascii '' https://api.example.com/ ''"
  have ne: "trim ?u \<noteq> []" "strip_one_slash (trim ?u) \<noteq> []"
    by (simp_all add: example_url example_base) (simp_all add: ascii_def)
  have single: "\<not> ends_with (trim ?u) (ascii ''//'')"
    unfolding example_url by (simp add: ends_with_def ascii_def)
  have join: "ascii ''https://api.example.com'' @ ascii ''/lead'' = ascii ''https://api.example.com/lead''"
    by (simp add: ascii_def)
  have doc: "res_ok (config_response ?u)"
    "res_json (config_response ?u) = Inr (JObj [(ascii ''API_BASE_URL'', JStr ?u)])"
    "map_of [(ascii ''API_BASE_URL'', JStr ?u)] (ascii ''API_BASE_URL'') = Some (JStr ?u)"
    by (simp_all add: config_response_def res_ok_def)
  from requests_go_to_the_normalized_base [OF refl doc ne(1), of "loaded_page jane_form"
      "[Submit linkedin_browser (Inr accepted_response)]"]
    one_valid_submit [OF ne jane_ok, of linkedin_browser "Inr accepted_response"] single join
  show ?thesis by (simp add: example_url example_base)
qed

text \<open>
  Claim C10 as stated fails for a base URL that ends with two slashes: only one is
  removed, and the request goes to a URL ending with \<open>//lead\<close>.
\<close>

theorem two_trailing_slashes_counterexample:
  "ends_with (ascii ''https://api.example.com//'') (ascii ''/'')
   \<and> map post_url (posts (trace (run_page (Inr (config_response (ascii ''https://api.example.com//'')))
        (loaded_page jane_form) [Submit linkedin_browser (Inr accepted_response)]))) =
       [ascii ''https://api.example.com//lead'']
   \<and> ends_with (ascii ''https://api.example.com//lead'') (ascii ''//lead'')"
proof -
  let ?u = "ascii ''https://api.example.com//''"
  have ne: "trim ?u \<noteq> []" "strip_one_slash (trim ?u) \<noteq> []"
    by (simp_all add: example_url example_base) (simp_all add: ascii_def)
  have join: "ascii ''https://api.example.com/'' @ ascii ''/lead'' = ascii ''https://api.example.com//lead''"
    by (simp add: ascii_def)
  have ends: "ends_with (ascii ''https://api.example.com//'') (ascii ''/'')"
    "ends_with (ascii ''https://api.example.com//lead'') (ascii ''//lead'')"
    by (simp_all add: ends_with_def ascii_def)
  from one_valid_submit [OF ne jane_ok, of linkedin_browser "Inr accepted_response"] join ends
  show ?thesis by (simp add: example_url example_base)
qed

end
